theory Spec2Isabelle
  imports Complex_Main "HOL-Library.AList" "HOL-Library.Sublist"
begin

section \<open>Model selection framework (model\_selection.py)\<close>

text \<open>
  A shallow embedding of \<^verbatim>\<open>src/model_selection.py\<close>: the classes
  \<^verbatim>\<open>PerformanceTracker\<close>, \<^verbatim>\<open>Experiment\<close> and \<^verbatim>\<open>MultiExperiment\<close>.
  Objects are records that are passed in and returned updated; a Python exception is a
  value of \<open>py_error\<close>; a method that can raise after having mutated its object returns
  the error next to the object as it was left. The calls into scikit-learn
  (\<^verbatim>\<open>sgen._shuffle\<close>, \<^verbatim>\<open>StandardScaler.fit_transform\<close>, \<^verbatim>\<open>GridSearchCV.fit\<close>,
  \<^verbatim>\<open>consensus_score\<close>) are parameters of the model, collected in the record
  \<open>sklearn\<close>; each of them may raise.
\<close>

subsection \<open>Python values\<close>

text \<open>The exceptions that the module, the interpreter or a library call can raise.\<close>

datatype py_error =
    KeyError
  | TypeError
  | AttributeError
  | IndexError
  | UnboundLocalError
  | ValueError string
  | LibraryError string

text \<open>
  A Python float as far as the module looks at it: the module only compares scores with
  \<^verbatim>\<open>>\<close>. Every finite float is a rational number, and the comparison of two
  finite floats is the comparison of these numbers.
\<close>

datatype pyfloat = NaN | NInf | Fin real | PInf

text \<open>\<^verbatim>\<open>a > b\<close> on floats: false as soon as one side is NaN.\<close>

fun fgt :: "pyfloat \<Rightarrow> pyfloat \<Rightarrow> bool" where
  "fgt NaN b = False"
| "fgt a NaN = False"
| "fgt NInf b = False"
| "fgt (Fin x) NInf = True"
| "fgt (Fin x) (Fin y) = (y < x)"
| "fgt (Fin x) PInf = False"
| "fgt PInf PInf = False"
| "fgt PInf b = True"

text \<open>
  A \<^verbatim>\<open>dict\<close> is an association list in insertion order. Storing under a key that
  is present replaces the value in place, storing under a new key appends the entry;
  reading a missing key raises \<^verbatim>\<open>KeyError\<close>.
\<close>

type_synonym ('k, 'v) dict = "('k \<times> 'v) list"

definition dict_set :: "('k, 'v) dict \<Rightarrow> 'k \<Rightarrow> 'v \<Rightarrow> ('k, 'v) dict" where
  "dict_set d k v = AList.update k v d"

definition dict_get :: "('k, 'v) dict \<Rightarrow> 'k \<Rightarrow> py_error + 'v" where
  "dict_get d k = (case map_of d k of None \<Rightarrow> Inl KeyError | Some v \<Rightarrow> Inr v)"

text \<open>The dict comprehension \<^verbatim>\<open>{k: v for k in keys}\<close>.\<close>

definition dict_comprehension :: "'k list \<Rightarrow> 'v \<Rightarrow> ('k, 'v) dict" where
  "dict_comprehension keys v = foldl (\<lambda>d k. dict_set d k v) [] keys"

text \<open>
  \<^verbatim>\<open>max(candidates.items(), key=operator.itemgetter(1))\<close>: the first item, in
  iteration order, whose value no later item exceeds; \<^verbatim>\<open>ValueError\<close> on an empty
  sequence.
\<close>

fun max_loop :: "('k \<times> int) \<Rightarrow> ('k \<times> int) list \<Rightarrow> ('k \<times> int)" where
  "max_loop best [] = best"
| "max_loop best (item # items) =
     (if snd item > snd best then max_loop item items else max_loop best items)"

definition py_max :: "('k \<times> int) list \<Rightarrow> py_error + ('k \<times> int)" where
  "py_max items =
     (case items of
        [] \<Rightarrow> Inl (ValueError ''max() arg is an empty sequence'')
      | item # rest \<Rightarrow> Inr (max_loop item rest))"

subsection \<open>Models, estimators and results\<close>

type_synonym label = string

text \<open>A model class, known to the module by its \<^verbatim>\<open>__name__\<close>.\<close>

datatype model_class = ModelClass (cls_name: string)

datatype pval = PInt int | PStr string

text \<open>One hyperparameter configuration, and a grid of candidate values.\<close>

type_synonym params = "(string, pval) dict"
type_synonym param_grid = "(string, pval list) dict"

text \<open>\<^verbatim>\<open>model(**params)\<close>: an unfitted instance of a model class.\<close>

datatype estimator = Estimator model_class params

text \<open>
  A pair of indicator matrices, one row per bicluster: the \<^verbatim>\<open>biclusters_\<close> of a
  fitted estimator, and the ground truth of a class of test data.
\<close>

type_synonym indicator = "bool list list"
type_synonym biclusters = "indicator \<times> indicator"

record fitted =
  biclusters :: biclusters

text \<open>What \<^verbatim>\<open>score_eval\<close> reads from a fitted \<^verbatim>\<open>GridSearchCV\<close>.\<close>

record grid =
  best_score :: pyfloat
  best_params :: params

text \<open>
  What \<^verbatim>\<open>compare_models\<close> returns: the triple of \<^verbatim>\<open>score_eval\<close>, or the
  \<^verbatim>\<open>None\<close> of \<^verbatim>\<open>time_eval\<close>.
\<close>

datatype pyresult = PyNone | Triple string estimator pyfloat

subsection \<open>PerformanceTracker\<close>

record tracker =
  test_classes :: "label list"
  models :: "label list"
  model_scores :: "(label, (label, pyfloat list) dict) dict"
  winning_stats :: "(label, (label, int) dict) dict"

definition setup_model_score_stats ::
  "label list \<Rightarrow> label list \<Rightarrow> (label, (label, pyfloat list) dict) dict" where
  "setup_model_score_stats cs ms =
     foldl (\<lambda>stats c. dict_set stats c (dict_comprehension ms [])) [] cs"

definition setup_model_win_stats ::
  "label list \<Rightarrow> label list \<Rightarrow> (label, (label, int) dict) dict" where
  "setup_model_win_stats cs ms =
     foldl (\<lambda>stats c. dict_set stats c (dict_comprehension ms 0)) [] cs"

definition PerformanceTracker :: "label list \<Rightarrow> label list \<Rightarrow> tracker" where
  "PerformanceTracker cs ms =
     \<lparr>test_classes = cs, models = ms,
      model_scores = setup_model_score_stats cs ms,
      winning_stats = setup_model_win_stats cs ms\<rparr>"

text \<open>
  The body of the loop of \<^verbatim>\<open>update_stats\<close> for one class. Line 81 unpacks
  \<^verbatim>\<open>results[test_class]\<close>, line 82 increments the counter, line 83 appends the
  score. The tracker is returned as the statement that raised left it.
\<close>

definition update_class ::
  "(label, pyresult) dict \<Rightarrow> label \<Rightarrow> tracker \<Rightarrow> py_error option \<times> tracker" where
  "update_class res c t =
     (case dict_get res c of
        Inl e \<Rightarrow> (Some e, t)
      | Inr PyNone \<Rightarrow> (Some TypeError, t)
      | Inr (Triple name uu score) \<Rightarrow>
          (case dict_get (winning_stats t) c of
             Inl e \<Rightarrow> (Some e, t)
           | Inr wins \<Rightarrow>
               (case dict_get wins name of
                  Inl e \<Rightarrow> (Some e, t)
                | Inr n \<Rightarrow>
                    let t1 = t\<lparr>winning_stats :=
                                dict_set (winning_stats t) c (dict_set wins name (n + 1))\<rparr>
                    in (case dict_get (model_scores t1) c of
                          Inl e \<Rightarrow> (Some e, t1)
                        | Inr scores \<Rightarrow>
                            (case dict_get scores name of
                               Inl e \<Rightarrow> (Some e, t1)
                             | Inr history \<Rightarrow>
                                 (None, t1\<lparr>model_scores :=
                                    dict_set (model_scores t1) c
                                      (dict_set scores name (history @ [score]))\<rparr>))))))"

fun update_loop ::
  "(label, pyresult) dict \<Rightarrow> label list \<Rightarrow> tracker \<Rightarrow> py_error option \<times> tracker" where
  "update_loop res [] t = (None, t)"
| "update_loop res (c # cs) t =
     (case update_class res c t of
        (Some e, t') \<Rightarrow> (Some e, t')
      | (None, t') \<Rightarrow> update_loop res cs t')"

definition update_stats :: "tracker \<Rightarrow> (label, pyresult) dict \<Rightarrow> py_error option \<times> tracker" where
  "update_stats t res = update_loop res (test_classes t) t"

fun winner_loop ::
  "tracker \<Rightarrow> label list \<Rightarrow> (label, label) dict \<Rightarrow> py_error + (label, label) dict" where
  "winner_loop t [] winners = Inr winners"
| "winner_loop t (c # cs) winners =
     (case dict_get (winning_stats t) c of
        Inl e \<Rightarrow> Inl e
      | Inr candidates \<Rightarrow>
          (case py_max candidates of
             Inl e \<Rightarrow> Inl e
           | Inr (winner, uu) \<Rightarrow> winner_loop t cs (dict_set winners c winner)))"

definition winner_models :: "tracker \<Rightarrow> py_error + (label, label) dict" where
  "winner_models t = winner_loop t (test_classes t) []"

text \<open>Reading one entry of the two nested mappings (\<open>None\<close>: no such entry).\<close>

definition score_history :: "tracker \<Rightarrow> label \<Rightarrow> label \<Rightarrow> pyfloat list option" where
  "score_history t c f =
     (case map_of (model_scores t) c of None \<Rightarrow> None | Some scores \<Rightarrow> map_of scores f)"

definition win_count :: "tracker \<Rightarrow> label \<Rightarrow> label \<Rightarrow> int option" where
  "win_count t c f =
     (case map_of (winning_stats t) c of None \<Rightarrow> None | Some wins \<Rightarrow> map_of wins f)"

text \<open>The trackers that a sequence of \<^verbatim>\<open>update_stats\<close> calls can produce,
  whether a call returned or raised.\<close>

inductive reachable :: "tracker \<Rightarrow> bool" where
  reachable_init: "reachable (PerformanceTracker cs ms)"
| reachable_update: "reachable t \<Longrightarrow> reachable (snd (update_stats t res))"

text \<open>A sequence of \<^verbatim>\<open>update_stats\<close> calls that stops at the first one that raises.\<close>

fun update_all ::
  "tracker \<Rightarrow> (label, pyresult) dict list \<Rightarrow> py_error option \<times> tracker" where
  "update_all t [] = (None, t)"
| "update_all t (res # rest) =
     (case update_stats t res of
        (Some e, t') \<Rightarrow> (Some e, t')
      | (None, t') \<Rightarrow> update_all t' rest)"

subsection \<open>The calls into scikit-learn\<close>

text \<open>
  The library calls of the module, as functions of what the module passes to them.
  \<open>shuffle\<close> is \<^verbatim>\<open>sgen._shuffle(data, random_state)\<close>, which returns the shuffled
  matrix with the row and the column permutation; \<open>fit_transform\<close> is
  \<^verbatim>\<open>StandardScaler().fit_transform\<close>, which fits anew at every call; \<open>grid_fit\<close> is
  \<^verbatim>\<open>GridSearchCV(model(random_state=...), param_grid, scoring=..., ...).fit(train)\<close>
  read at \<^verbatim>\<open>best_score_\<close> and \<^verbatim>\<open>best_params_\<close>, given the model class, the seed, the
  grid, the scoring function and the training matrix. The seed is an integer, as the
  default \<^verbatim>\<open>random_state=1\<close> of \<^verbatim>\<open>MultiExperiment\<close> is: scikit-learn then seeds a
  fresh generator at every call, so that each call is a function of its arguments.
\<close>

record 'd sklearn =
  shuffle :: "'d \<Rightarrow> int \<Rightarrow> py_error + ('d \<times> nat list \<times> nat list)"
  fit_transform :: "'d \<Rightarrow> py_error + 'd"
  grid_fit :: "model_class \<Rightarrow> int \<Rightarrow> param_grid \<Rightarrow> (fitted \<Rightarrow> py_error + pyfloat) \<Rightarrow> 'd
                 \<Rightarrow> py_error + grid"
  consensus_score :: "biclusters \<Rightarrow> biclusters \<Rightarrow> py_error + pyfloat"

subsection \<open>Experiment and MultiExperiment\<close>

text \<open>
  The attributes of a \<^verbatim>\<open>MultiExperiment\<close> that the methods read or write.
  \<open>cur_data\<close>, \<open>cur_rows\<close> and \<open>cur_cols\<close> are \<^verbatim>\<open>_data\<close>, \<^verbatim>\<open>_rows\<close> and
  \<^verbatim>\<open>_cols\<close>. \<open>None\<close> is Python's \<^verbatim>\<open>None\<close>, to which \<^verbatim>\<open>__init__\<close> sets
  \<^verbatim>\<open>results\<close>, \<^verbatim>\<open>_data\<close>, \<^verbatim>\<open>_rows\<close>, \<^verbatim>\<open>_cols\<close> and \<^verbatim>\<open>_tracker\<close>; for
  \<open>row_idx\<close> and \<open>col_idx\<close>, which \<^verbatim>\<open>__init__\<close> does not set, it is the
  attribute that does not exist yet.
\<close>

record 'd multi_experiment =
  models_and_params :: "(model_class \<times> param_grid) list"
  verbose :: int
  random_state :: int
  nruns :: int
  results :: "(label, pyresult) dict option"
  cur_data :: "'d option"
  cur_rows :: "indicator option"
  cur_cols :: "indicator option"
  row_idx :: "nat list option"
  col_idx :: "nat list option"
  tracker :: "tracker option"

definition MultiExperiment ::
  "(model_class \<times> param_grid) list \<Rightarrow> int \<Rightarrow> int \<Rightarrow> int \<Rightarrow> 'd multi_experiment" where
  "MultiExperiment mps n v rs =
     \<lparr>models_and_params = mps, verbose = v, random_state = rs, nruns = n,
      results = None, cur_data = None, cur_rows = None, cur_cols = None,
      row_idx = None, col_idx = None, tracker = None\<rparr>"

text \<open>\<^verbatim>\<open>m[:, idx]\<close>: the columns of \<open>m\<close> at the positions \<open>idx\<close>, in that order.\<close>

definition take_row :: "bool list \<Rightarrow> nat list \<Rightarrow> py_error + bool list" where
  "take_row r idx =
     (if \<forall>i \<in> set idx. i < length r then Inr (map (\<lambda>i. r ! i) idx) else Inl IndexError)"

fun take_columns :: "indicator \<Rightarrow> nat list \<Rightarrow> py_error + indicator" where
  "take_columns [] idx = Inr []"
| "take_columns (r # rs) idx =
     (case take_row r idx of
        Inl e \<Rightarrow> Inl e
      | Inr r' \<Rightarrow> (case take_columns rs idx of Inl e \<Rightarrow> Inl e | Inr rs' \<Rightarrow> Inr (r' # rs')))"

text \<open>
  \<^verbatim>\<open>jaccard\<close>. Line 217 evaluates \<^verbatim>\<open>self._rows[:, self.row_idx]\<close> and then
  \<^verbatim>\<open>self._cols[:, self.col_idx]\<close>. \<^verbatim>\<open>row_idx\<close> and \<^verbatim>\<open>col_idx\<close> are not set
  by \<^verbatim>\<open>__init__\<close>, so that reading them before \<^verbatim>\<open>score_eval\<close> has run raises
  \<^verbatim>\<open>AttributeError\<close>; \<^verbatim>\<open>_rows\<close> and \<^verbatim>\<open>_cols\<close> are \<^verbatim>\<open>None\<close> until
  \<^verbatim>\<open>execute\<close> sets them, and subscripting \<^verbatim>\<open>None\<close> raises \<^verbatim>\<open>TypeError\<close>.
\<close>

definition jaccard :: "'d sklearn \<Rightarrow> 'd multi_experiment \<Rightarrow> fitted \<Rightarrow> py_error + pyfloat" where
  "jaccard env e est =
     (case biclusters est of (rows, cols) \<Rightarrow>
        if length rows = 0 \<or> length cols = 0 then Inr (Fin 0)
        else (case row_idx e of
                None \<Rightarrow> Inl AttributeError
              | Some ri \<Rightarrow>
                  (case cur_rows e of
                     None \<Rightarrow> Inl TypeError
                   | Some r \<Rightarrow>
                       (case take_columns r ri of
                          Inl err \<Rightarrow> Inl err
                        | Inr yrows \<Rightarrow>
                            (case col_idx e of
                               None \<Rightarrow> Inl AttributeError
                             | Some ci \<Rightarrow>
                                 (case cur_cols e of
                                    None \<Rightarrow> Inl TypeError
                                  | Some c \<Rightarrow>
                                      (case take_columns c ci of
                                         Inl err \<Rightarrow> Inl err
                                       | Inr ycols \<Rightarrow>
                                           consensus_score env (rows, cols)
                                             (yrows, ycols))))))))"

text \<open>
  Lines 173 to 176 of \<^verbatim>\<open>score_eval\<close>: the data of the class is shuffled with the
  seed of the experiment, the permutations are stored in \<^verbatim>\<open>self.row_idx\<close> and
  \<^verbatim>\<open>self.col_idx\<close>, and the shuffled matrix is standardised.
\<close>

definition shuffle_and_scale ::
  "'d sklearn \<Rightarrow> 'd multi_experiment \<Rightarrow> (py_error + 'd) \<times> 'd multi_experiment" where
  "shuffle_and_scale env e =
     (case cur_data e of
        None \<Rightarrow> (Inl AttributeError, e)
      | Some d \<Rightarrow>
          (case shuffle env d (random_state e) of
             Inl err \<Rightarrow> (Inl err, e)
           | Inr (train, ri, ci) \<Rightarrow>
               let e1 = e\<lparr>row_idx := Some ri, col_idx := Some ci\<rparr>
               in (case fit_transform env train of
                     Inl err \<Rightarrow> (Inl err, e1)
                   | Inr train_std \<Rightarrow> (Inr train_std, e1))))"

text \<open>
  Lines 182 to 187: the grid search of one model family, with the seed of the experiment
  and \<^verbatim>\<open>self.jaccard\<close> as the scoring function, fitted on the standardised matrix.
\<close>

definition family_fit ::
  "'d sklearn \<Rightarrow> 'd multi_experiment \<Rightarrow> 'd \<Rightarrow> model_class \<times> param_grid \<Rightarrow> py_error + grid" where
  "family_fit env e train mp =
     (case mp of (model, pgrid) \<Rightarrow>
        grid_fit env model (random_state e) pgrid (jaccard env e) train)"

text \<open>
  The loop of \<^verbatim>\<open>score_eval\<close> over \<^verbatim>\<open>models_and_params\<close>. The accumulator is
  \<^verbatim>\<open>best_score\<close> with the pair \<^verbatim>\<open>winner_name\<close>, \<^verbatim>\<open>winner_model\<close>, which
  is \<open>None\<close> as long as the two names are unbound: they are assigned in the branch of
  line 193 only. Nothing catches what \<^verbatim>\<open>grid.fit\<close> raises.
\<close>

fun score_loop ::
  "'d sklearn \<Rightarrow> 'd multi_experiment \<Rightarrow> 'd \<Rightarrow> (model_class \<times> param_grid) list
     \<Rightarrow> pyfloat \<times> (string \<times> estimator) option
     \<Rightarrow> py_error + (pyfloat \<times> (string \<times> estimator) option)" where
  "score_loop env e train [] acc = Inr acc"
| "score_loop env e train ((model, pgrid) # rest) (best, winner) =
     (case family_fit env e train (model, pgrid) of
        Inl err \<Rightarrow> Inl err
      | Inr g \<Rightarrow>
          if fgt (best_score g) best
          then score_loop env e train rest
                 (best_score g, Some (cls_name model, Estimator model (best_params g)))
          else score_loop env e train rest (best, winner))"

text \<open>
  \<^verbatim>\<open>score_eval\<close>: the loop starts from \<^verbatim>\<open>-inf\<close>, and the \<^verbatim>\<open>return\<close> of
  line 198 reads \<^verbatim>\<open>winner_name\<close>, which raises \<^verbatim>\<open>UnboundLocalError\<close> when no
  iteration has assigned it.
\<close>

definition score_eval ::
  "'d sklearn \<Rightarrow> 'd multi_experiment
     \<Rightarrow> (py_error + (string \<times> estimator \<times> pyfloat)) \<times> 'd multi_experiment" where
  "score_eval env e =
     (case shuffle_and_scale env e of
        (Inl err, e1) \<Rightarrow> (Inl err, e1)
      | (Inr train_std, e1) \<Rightarrow>
          (case score_loop env e1 train_std (models_and_params e1) (NInf, None) of
             Inl err \<Rightarrow> (Inl err, e1)
           | Inr (best, None) \<Rightarrow> (Inl UnboundLocalError, e1)
           | Inr (best, Some (winner_name, winner_model)) \<Rightarrow>
               (Inr (winner_name, winner_model, best), e1)))"

text \<open>\<^verbatim>\<open>time_eval\<close> is the statement \<^verbatim>\<open>pass\<close>: it returns \<^verbatim>\<open>None\<close>.\<close>

definition time_eval :: "'d multi_experiment \<Rightarrow> pyresult" where
  "time_eval e = PyNone"

definition invalid_target :: "string \<Rightarrow> string" where
  "invalid_target target = ''Invalid target: '' @ [CHR 0x60] @ target @ [CHR 0x60]"

definition compare_models ::
  "'d sklearn \<Rightarrow> 'd multi_experiment \<Rightarrow> string \<Rightarrow> (py_error + pyresult) \<times> 'd multi_experiment" where
  "compare_models env e target =
     (if target = ''score'' then
        (case score_eval env e of
           (Inl err, e') \<Rightarrow> (Inl err, e')
         | (Inr (name, model, score), e') \<Rightarrow> (Inr (Triple name model score), e'))
      else if target = ''time'' then (Inr (time_eval e), e)
      else (Inl (ValueError (invalid_target target)), e))"

text \<open>
  The loop of \<^verbatim>\<open>execute\<close> over \<^verbatim>\<open>data.keys()\<close>. With \<^verbatim>\<open>verbose > 0\<close>
  line 151 unpacks the result that was just stored, which raises \<^verbatim>\<open>TypeError\<close>
  when the result is \<^verbatim>\<open>None\<close>; the printing itself is left out.
\<close>

fun execute_loop ::
  "'d sklearn \<Rightarrow> string \<Rightarrow> (label, indicator) dict \<Rightarrow> (label, indicator) dict
     \<Rightarrow> (label, 'd) dict \<Rightarrow> 'd multi_experiment \<Rightarrow> py_error option \<times> 'd multi_experiment" where
  "execute_loop env target rows cols [] e = (None, e)"
| "execute_loop env target rows cols ((key, d) # rest) e =
     (let e1 = e\<lparr>cur_data := Some d\<rparr>
      in case dict_get rows key of
           Inl err \<Rightarrow> (Some err, e1)
         | Inr r \<Rightarrow>
             (case dict_get cols key of
                Inl err \<Rightarrow> (Some err, e1)
              | Inr c \<Rightarrow>
                  (case compare_models env (e1\<lparr>cur_rows := Some r, cur_cols := Some c\<rparr>) target of
                     (Inl err, e2) \<Rightarrow> (Some err, e2)
                   | (Inr res, e2) \<Rightarrow>
                       (case results e2 of
                          None \<Rightarrow> (Some TypeError, e2)
                        | Some rs \<Rightarrow>
                            let e3 = e2\<lparr>results := Some (dict_set rs key res)\<rparr>
                            in if verbose e3 > 0 \<and> res = PyNone then (Some TypeError, e3)
                               else execute_loop env target rows cols rest e3))))"

definition execute ::
  "'d sklearn \<Rightarrow> 'd multi_experiment \<Rightarrow> (label, 'd) dict
     \<Rightarrow> (label, indicator) dict \<times> (label, indicator) dict \<Rightarrow> string
     \<Rightarrow> py_error option \<times> 'd multi_experiment" where
  "execute env e data indicators target =
     (case indicators of (rows, cols) \<Rightarrow>
        execute_loop env target rows cols data (e\<lparr>results := Some []\<rparr>))"

definition model_labels :: "'d multi_experiment \<Rightarrow> label list" where
  "model_labels e = map (\<lambda>(model, uu). cls_name model) (models_and_params e)"

text \<open>One element of \<^verbatim>\<open>dataset\<close>: the tuple \<^verbatim>\<open>(data, rows, cols)\<close>.\<close>

type_synonym 'd test_set =
  "(label, 'd) dict \<times> (label, indicator) dict \<times> (label, indicator) dict"

text \<open>
  The inner loop of \<^verbatim>\<open>execute_all\<close> over \<^verbatim>\<open>dataset\<close> (lines 290 to 299) and
  the outer loop over \<^verbatim>\<open>range(self.nruns)\<close>. \<^verbatim>\<open>update_stats\<close> subscripts
  \<^verbatim>\<open>self.results\<close> once for every test class, which raises \<^verbatim>\<open>TypeError\<close> on
  \<^verbatim>\<open>None\<close>.
\<close>

fun class_loop ::
  "'d sklearn \<Rightarrow> string \<Rightarrow> 'd test_set list \<Rightarrow> 'd multi_experiment
     \<Rightarrow> py_error option \<times> 'd multi_experiment" where
  "class_loop env target [] e = (None, e)"
| "class_loop env target ((data, rows, cols) # rest) e =
     (case execute env e data (rows, cols) target of
        (Some err, e1) \<Rightarrow> (Some err, e1)
      | (None, e1) \<Rightarrow>
          (case tracker e1 of
             None \<Rightarrow> (Some AttributeError, e1)
           | Some t \<Rightarrow>
               (case results e1 of
                  None \<Rightarrow>
                    if test_classes t = [] then class_loop env target rest e1
                    else (Some TypeError, e1)
                | Some res \<Rightarrow>
                    (case update_stats t res of
                       (Some err, t') \<Rightarrow> (Some err, e1\<lparr>tracker := Some t'\<rparr>)
                     | (None, t') \<Rightarrow> class_loop env target rest (e1\<lparr>tracker := Some t'\<rparr>)))))"

fun run_loop ::
  "'d sklearn \<Rightarrow> string \<Rightarrow> 'd test_set list \<Rightarrow> nat \<Rightarrow> 'd multi_experiment
     \<Rightarrow> py_error option \<times> 'd multi_experiment" where
  "run_loop env target dataset 0 e = (None, e)"
| "run_loop env target dataset (Suc n) e =
     (case class_loop env target dataset e of
        (Some err, e') \<Rightarrow> (Some err, e')
      | (None, e') \<Rightarrow> run_loop env target dataset n e')"

definition execute_all ::
  "'d sklearn \<Rightarrow> 'd multi_experiment \<Rightarrow> 'd test_set list \<Rightarrow> label list \<Rightarrow> string
     \<Rightarrow> py_error option \<times> 'd multi_experiment" where
  "execute_all env e dataset classes target =
     run_loop env target dataset (nat (nruns e))
       (e\<lparr>tracker := Some (PerformanceTracker classes (model_labels e))\<rparr>)"

subsection \<open>A concrete experiment\<close>

text \<open>
  A library whose grid search raises for the model class \<^verbatim>\<open>Broken\<close> and reports
  the best scores 0.9 for \<^verbatim>\<open>A\<close>, 0.9 for \<^verbatim>\<open>A2\<close>, NaN for \<^verbatim>\<open>N\<close> and 0.3
  for every other class; an experiment over two classes of test data.
\<close>

definition demo_env :: "nat sklearn" where
  "demo_env =
     \<lparr>shuffle = (\<lambda>d seed. Inr (d, [1, 0], [0])),
      fit_transform = (\<lambda>d. Inr d),
      grid_fit = (\<lambda>model seed pgrid scoring d.
         if cls_name model = ''Broken'' then Inl (LibraryError ''fit failed'')
         else if cls_name model = ''A'' then
           Inr \<lparr>best_score = Fin (9 / 10), best_params = [(''n_clusters'', PInt 2)]\<rparr>
         else if cls_name model = ''A2'' then
           Inr \<lparr>best_score = Fin (9 / 10), best_params = [(''n_clusters'', PInt 4)]\<rparr>
         else if cls_name model = ''N'' then
           Inr \<lparr>best_score = NaN, best_params = []\<rparr>
         else Inr \<lparr>best_score = Fin (3 / 10), best_params = []\<rparr>),
      consensus_score = (\<lambda>a b. Inr (Fin 1))\<rparr>"

text \<open>
  A library that reads the seed: at the seed 1 it is the library above, at any other
  seed the shuffle gives the other permutation of the rows and the grid search reports
  the best score 1.0 for \<^verbatim>\<open>B\<close> and 0.0 for every other class.
\<close>

definition demo_seeded :: "nat sklearn" where
  "demo_seeded =
     \<lparr>shuffle = (\<lambda>d seed. if seed = 1 then Inr (d, [1, 0], [0]) else Inr (d, [0, 1], [0])),
      fit_transform = (\<lambda>d. Inr d),
      grid_fit = (\<lambda>model seed pgrid scoring d.
         if seed = 1 then grid_fit demo_env model seed pgrid scoring d
         else if cls_name model = ''B'' then Inr \<lparr>best_score = Fin 1, best_params = []\<rparr>
         else Inr \<lparr>best_score = Fin 0, best_params = []\<rparr>),
      consensus_score = (\<lambda>a b. Inr (Fin 1))\<rparr>"

definition demo_models :: "(model_class \<times> param_grid) list" where
  "demo_models =
     [(ModelClass ''B'', []), (ModelClass ''A'', [(''n_clusters'', [PInt 2, PInt 4])])]"

definition demo_experiment :: "nat multi_experiment" where
  "demo_experiment = MultiExperiment demo_models 2 0 1"

definition demo_data :: "(label, nat) dict" where
  "demo_data = [(''c1'', 5), (''c2'', 7)]"

definition demo_rows :: "(label, indicator) dict" where
  "demo_rows = [(''c1'', [[True, False]]), (''c2'', [[False, True]])]"

definition demo_cols :: "(label, indicator) dict" where
  "demo_cols = [(''c1'', [[True]]), (''c2'', [[True]])]"

definition demo_dataset :: "nat test_set list" where
  "demo_dataset = [(demo_data, demo_rows, demo_cols)]"

text \<open>
  The experiment at a point where \<^verbatim>\<open>execute\<close> has set the data and the ground
  truth of the class \<^verbatim>\<open>c1\<close>, and the same experiment after the shuffle.
\<close>

definition demo_ready :: "nat multi_experiment" where
  "demo_ready =
     demo_experiment\<lparr>cur_data := Some 5, cur_rows := Some [[True, False]],
       cur_cols := Some [[True]]\<rparr>"

definition demo_shuffled :: "nat multi_experiment" where
  "demo_shuffled = demo_ready\<lparr>row_idx := Some [1, 0], col_idx := Some [0]\<rparr>"

text \<open>A family list in which \<^verbatim>\<open>A\<close> and \<^verbatim>\<open>A2\<close> tie at the best score 0.9.\<close>

definition demo_tie :: "(model_class \<times> param_grid) list" where
  "demo_tie =
     [(ModelClass ''B'', []), (ModelClass ''A'', []), (ModelClass ''N'', []),
      (ModelClass ''A2'', []), (ModelClass ''B'', [])]"

text \<open>The results of one trial, and the tracker before it, after it and after a second
  trial with the same results.\<close>

definition demo_results :: "(label, pyresult) dict" where
  "demo_results =
     [(''c1'', Triple ''A'' (Estimator (ModelClass ''A'') [(''n_clusters'', PInt 2)]) (Fin (9 / 10))),
      (''c2'', Triple ''B'' (Estimator (ModelClass ''B'') []) (Fin (3 / 10)))]"

definition demo_tracker :: tracker where
  "demo_tracker = PerformanceTracker [''c1'', ''c2''] [''A'', ''B'']"

definition demo_after :: tracker where
  "demo_after =
     demo_tracker\<lparr>
       winning_stats := [(''c1'', [(''A'', 1), (''B'', 0)]), (''c2'', [(''A'', 0), (''B'', 1)])],
       model_scores := [(''c1'', [(''A'', [Fin (9 / 10)]), (''B'', [])]),
                        (''c2'', [(''A'', []), (''B'', [Fin (3 / 10)])])]\<rparr>"

definition demo_after2 :: tracker where
  "demo_after2 =
     demo_tracker\<lparr>
       winning_stats := [(''c1'', [(''A'', 2), (''B'', 0)]), (''c2'', [(''A'', 0), (''B'', 2)])],
       model_scores := [(''c1'', [(''A'', [Fin (9 / 10), Fin (9 / 10)]), (''B'', [])]),
                        (''c2'', [(''A'', []), (''B'', [Fin (3 / 10), Fin (3 / 10)])])]\<rparr>"

text \<open>The results of a trial that \<^verbatim>\<open>B\<close> wins for both classes, and the tracker after
  this trial and the one above: \<^verbatim>\<open>A\<close> and \<^verbatim>\<open>B\<close> are tied for \<^verbatim>\<open>c1\<close>.\<close>

definition demo_results_b :: "(label, pyresult) dict" where
  "demo_results_b =
     [(''c1'', Triple ''B'' (Estimator (ModelClass ''B'') []) (Fin (3 / 10))),
      (''c2'', Triple ''B'' (Estimator (ModelClass ''B'') []) (Fin (3 / 10)))]"

definition demo_tied :: tracker where
  "demo_tied =
     demo_tracker\<lparr>
       winning_stats := [(''c1'', [(''A'', 1), (''B'', 1)]), (''c2'', [(''A'', 0), (''B'', 2)])],
       model_scores := [(''c1'', [(''A'', [Fin (9 / 10)]), (''B'', [Fin (3 / 10)])]),
                        (''c2'', [(''A'', []), (''B'', [Fin (3 / 10), Fin (3 / 10)])])]\<rparr>"

text \<open>The results of a trial of the concrete experiment, which \<^verbatim>\<open>A\<close> wins for both
  classes, and its tracker after two runs.\<close>

definition demo_results_a :: "(label, pyresult) dict" where
  "demo_results_a =
     [(''c1'', Triple ''A'' (Estimator (ModelClass ''A'') [(''n_clusters'', PInt 2)]) (Fin (9 / 10))),
      (''c2'', Triple ''A'' (Estimator (ModelClass ''A'') [(''n_clusters'', PInt 2)]) (Fin (9 / 10)))]"

definition demo_final :: tracker where
  "demo_final =
     \<lparr>test_classes = [''c1'', ''c2''], models = [''B'', ''A''],
      model_scores = [(''c1'', [(''B'', []), (''A'', [Fin (9 / 10), Fin (9 / 10)])]),
                      (''c2'', [(''B'', []), (''A'', [Fin (9 / 10), Fin (9 / 10)])])],
      winning_stats = [(''c1'', [(''B'', 0), (''A'', 2)]), (''c2'', [(''B'', 0), (''A'', 2)])]\<rparr>"

subsection \<open>Invariants of the tracker\<close>

text \<open>
  Two dicts are related by \<open>keyed R\<close> entry by entry when they have the same keys in
  the same order and values related by \<open>R\<close>. The tracker keeps the two nested
  mappings related in this way, a counter being the length of the history at the same
  place.
\<close>

definition keyed :: "('a \<Rightarrow> 'b \<Rightarrow> bool) \<Rightarrow> ('k \<times> 'a) \<Rightarrow> ('k \<times> 'b) \<Rightarrow> bool" where
  "keyed R p q = (fst p = fst q \<and> R (snd p) (snd q))"

definition tracker_inv :: "tracker \<Rightarrow> bool" where
  "tracker_inv t =
     list_all2 (keyed (list_all2 (keyed (\<lambda>n h. n = int (length h)))))
       (winning_stats t) (model_scores t)"

text \<open>The counters that exist are those of the registered classes and families.\<close>

definition tracker_dom :: "tracker \<Rightarrow> bool" where
  "tracker_dom t =
     (\<forall>c f. (win_count t c f \<noteq> None) = (c \<in> set (test_classes t) \<and> f \<in> set (models t)))"

text \<open>From one tracker to a later one no history loses or changes an entry and no
  counter decreases.\<close>

definition grows :: "tracker \<Rightarrow> tracker \<Rightarrow> bool" where
  "grows t t' =
     (test_classes t' = test_classes t \<and> models t' = models t
      \<and> (\<forall>c f. rel_option prefix (score_history t c f) (score_history t' c f))
      \<and> (\<forall>c f. rel_option (\<le>) (win_count t c f) (win_count t' c f)))"

text \<open>\<^verbatim>\<open>sum(winning_stats[c].values())\<close>, over the registered families.\<close>

definition total_wins :: "tracker \<Rightarrow> label \<Rightarrow> int" where
  "total_wins t c = (\<Sum>f \<in> set (models t). case win_count t c f of None \<Rightarrow> 0 | Some n \<Rightarrow> n)"

subsection \<open>The invariant of the loop of score\_eval\<close>

text \<open>
  As long as \<^verbatim>\<open>winner_name\<close> is unbound the running best is \<^verbatim>\<open>-inf\<close>; once it
  is bound, it names one of the families seen so far, whose best score is the running
  best and exceeds \<^verbatim>\<open>-inf\<close>.
\<close>

definition winner_ok ::
  "'d sklearn \<Rightarrow> 'd multi_experiment \<Rightarrow> 'd \<Rightarrow> (model_class \<times> param_grid) list
     \<Rightarrow> pyfloat \<times> (string \<times> estimator) option \<Rightarrow> bool" where
  "winner_ok env e ts fams acc =
     (case acc of
        (best, None) \<Rightarrow> best = NInf
      | (best, Some (name, est)) \<Rightarrow>
          (\<exists>model pgrid g. (model, pgrid) \<in> set fams
              \<and> family_fit env e ts (model, pgrid) = Inr g
              \<and> fgt (best_score g) NInf \<and> name = cls_name model
              \<and> est = Estimator model (best_params g) \<and> best = best_score g))"

subsection \<open>Repeated runs\<close>

text \<open>
  Two experiments have the same configuration when they agree on the model families,
  the verbosity and the seed; they are in step when they moreover agree on the data and
  the ground truth of the current class and on the results so far.
\<close>

definition same_config :: "'d multi_experiment \<Rightarrow> 'd multi_experiment \<Rightarrow> bool" where
  "same_config e e' =
     (models_and_params e = models_and_params e' \<and> verbose e = verbose e'
      \<and> random_state e = random_state e')"

definition in_step :: "'d multi_experiment \<Rightarrow> 'd multi_experiment \<Rightarrow> bool" where
  "in_step e e' =
     (same_config e e' \<and> cur_data e = cur_data e' \<and> cur_rows e = cur_rows e'
      \<and> cur_cols e = cur_cols e' \<and> results e = results e')"

text \<open>
  Two libraries agree at a seed when their shuffles and their grid searches do the same
  with this seed, and their other calls, which take no seed, are the same.
\<close>

definition agree_at_seed :: "'d sklearn \<Rightarrow> 'd sklearn \<Rightarrow> int \<Rightarrow> bool" where
  "agree_at_seed env env' seed =
     ((\<forall>d. shuffle env d seed = shuffle env' d seed)
      \<and> (\<forall>model. grid_fit env model seed = grid_fit env' model seed)
      \<and> fit_transform env = fit_transform env'
      \<and> consensus_score env = consensus_score env')"

text \<open>The results that \<^verbatim>\<open>execute\<close> leaves in \<^verbatim>\<open>self.results\<close> for one element of
  the data set.\<close>

definition trial_results ::
  "'d sklearn \<Rightarrow> 'd multi_experiment \<Rightarrow> string \<Rightarrow> 'd test_set \<Rightarrow> (label, pyresult) dict" where
  "trial_results env e target ds =
     (case ds of (data, rows, cols) \<Rightarrow>
        (case results (snd (execute env e data (rows, cols) target)) of
           None \<Rightarrow> []
         | Some res \<Rightarrow> res))"

section \<open>Properties\<close>

subsection \<open>The scoring function\<close>

text \<open>
  Claim C4. For every estimator whose candidate bicluster row set or column set is
  empty, \<^verbatim>\<open>jaccard\<close> returns exactly 0.0 and does not raise, whatever the ground
  truth, the shuffle indices and the library's \<^verbatim>\<open>consensus_score\<close> are.
\<close>

theorem jaccard_empty_partition:
  "fst (biclusters est) = [] \<or> snd (biclusters est) = [] \<Longrightarrow> jaccard env e est = Inr (Fin 0)"
  by (auto simp: jaccard_def split: prod.splits)

theorem jaccard_empty_partition_witness:
  "(fst (biclusters \<lparr>biclusters = ([], [[True]])\<rparr>) = []
      \<or> snd (biclusters \<lparr>biclusters = ([], [[True]])\<rparr>) = [])
   \<and> jaccard demo_env demo_experiment \<lparr>biclusters = ([], [[True]])\<rparr> = Inr (Fin 0)"
  using jaccard_empty_partition [of "\<lparr>biclusters = ([], [[True]])\<rparr>" demo_env demo_experiment]
  by simp

subsection \<open>The comparison target\<close>

lemma compare_models_invalid:
  "target \<noteq> ''score'' \<Longrightarrow> target \<noteq> ''time'' \<Longrightarrow>
   compare_models env e target = (Inl (ValueError (invalid_target target)), e)"
  by (simp add: compare_models_def)

lemma execute_loop_invalid:
  assumes "target \<noteq> ''score''" "target \<noteq> ''time''"
  shows "tracker (snd (execute_loop env target rows cols data e)) = tracker e
       \<and> (fst (execute_loop env target rows cols data e) = None \<longrightarrow>
            results (snd (execute_loop env target rows cols data e)) = results e)"
proof (cases data)
  case Nil
  then show ?thesis by simp
next
  case (Cons kd rest)
  obtain key d where kd: "kd = (key, d)" by (cases kd)
  show ?thesis
    unfolding Cons kd
    by (simp add: compare_models_invalid[OF assms] Let_def split: sum.splits)
qed

lemma update_stats_no_results: "snd (update_stats t []) = t"
  by (cases "test_classes t") (simp_all add: update_stats_def update_class_def dict_get_def)

lemma class_loop_invalid:
  assumes "target \<noteq> ''score''" "target \<noteq> ''time''"
  shows "tracker e = Some t \<Longrightarrow> tracker (snd (class_loop env target dataset e)) = Some t"
proof (induction dataset arbitrary: e)
  case Nil
  then show ?case by simp
next
  case (Cons x rest)
  obtain data rows cols where x: "x = (data, rows, cols)" by (cases x)
  let ?r = "execute_loop env target rows cols data (e\<lparr>results := Some []\<rparr>)"
  obtain err e1 where r: "?r = (err, e1)" by (cases ?r)
  from execute_loop_invalid[OF assms, of env rows cols data "e\<lparr>results := Some []\<rparr>"] r Cons.prems
  have tr: "tracker e1 = Some t" and res: "err = None \<longrightarrow> results e1 = Some []"
    by simp_all
  show ?case
  proof (cases err)
    case (Some a)
    with r tr show ?thesis by (simp add: x execute_def)
  next
    case None
    with res have res': "results e1 = Some []" by simp
    obtain uerr t' where u: "update_stats t [] = (uerr, t')" by (cases "update_stats t []")
    with update_stats_no_results[of t] have t': "t' = t" by simp
    have "tracker (e1\<lparr>tracker := Some t\<rparr>) = Some t" by simp
    from Cons.IH[OF this] show ?thesis
      using None r tr res' u t' by (simp add: x execute_def split: option.splits)
  qed
qed

lemma run_loop_invalid:
  assumes "target \<noteq> ''score''" "target \<noteq> ''time''"
  shows "tracker e = Some t \<Longrightarrow> tracker (snd (run_loop env target dataset n e)) = Some t"
proof (induction n arbitrary: e)
  case 0
  then show ?case by simp
next
  case (Suc n)
  obtain err e1 where r: "class_loop env target dataset e = (err, e1)"
    by (cases "class_loop env target dataset e")
  with class_loop_invalid[OF assms Suc.prems, of env dataset] have e1: "tracker e1 = Some t"
    by simp
  from Suc.IH[OF e1] r e1 show ?case by (cases err) simp_all
qed

text \<open>
  Claim C5. For every target other than \<^verbatim>\<open>score\<close> and \<^verbatim>\<open>time\<close>,
  \<^verbatim>\<open>compare_models\<close> raises a \<^verbatim>\<open>ValueError\<close> whose message quotes the target
  and leaves the experiment as it was, so that \<^verbatim>\<open>score_eval\<close> has not run; and
  after \<^verbatim>\<open>execute_all\<close> with such a target, whatever the data set and the number of
  runs, the tracker is the freshly constructed one: no counter and no history has
  changed.
\<close>

theorem invalid_target_raises:
  assumes "target \<noteq> ''score''" and "target \<noteq> ''time''"
  shows "compare_models env e target =
           (Inl (ValueError (''Invalid target: '' @ [CHR 0x60] @ target @ [CHR 0x60])), e)
       \<and> tracker (snd (execute_all env e dataset classes target)) =
           Some (PerformanceTracker classes (model_labels e))"
  using compare_models_invalid[OF assms, of env e]
    run_loop_invalid[OF assms,
      of "e\<lparr>tracker := Some (PerformanceTracker classes (model_labels e))\<rparr>"
         "PerformanceTracker classes (model_labels e)" env dataset "nat (nruns e)"]
  by (simp add: execute_all_def invalid_target_def)

theorem invalid_target_raises_witness:
  "''bogus'' \<noteq> ''score'' \<and> ''bogus'' \<noteq> ''time''
   \<and> compare_models demo_env demo_experiment ''bogus'' =
       (Inl (ValueError (''Invalid target: '' @ [CHR 0x60] @ ''bogus'' @ [CHR 0x60])),
        demo_experiment)
   \<and> tracker (snd (execute_all demo_env demo_experiment demo_dataset [''c1'', ''c2''] ''bogus'')) =
       Some (PerformanceTracker [''c1'', ''c2''] (model_labels demo_experiment))"
  using invalid_target_raises [of "''bogus''" demo_env demo_experiment demo_dataset "[''c1'', ''c2'']"]
  by simp

subsection \<open>The sweep of score\_eval\<close>

lemma fgt_trans: "fgt a b \<Longrightarrow> fgt b c \<Longrightarrow> fgt a c"
  by (cases a; cases b; cases c) simp_all

lemma fgt_not_sym: "fgt a b \<Longrightarrow> \<not> fgt b a"
  by (cases a; cases b) simp_all

lemma shuffle_and_scale_frame:
  "shuffle_and_scale env e = (r, e1) \<Longrightarrow>
   models_and_params e1 = models_and_params e \<and> random_state e1 = random_state e
   \<and> cur_rows e1 = cur_rows e \<and> cur_cols e1 = cur_cols e \<and> cur_data e1 = cur_data e
   \<and> results e1 = results e \<and> tracker e1 = tracker e \<and> verbose e1 = verbose e
   \<and> nruns e1 = nruns e"
  by (auto simp: shuffle_and_scale_def Let_def split: option.splits sum.splits prod.splits)

lemma score_loop_append:
  "score_loop env e ts (xs @ ys) acc =
     (case score_loop env e ts xs acc of
        Inl err \<Rightarrow> Inl err
      | Inr acc' \<Rightarrow> score_loop env e ts ys acc')"
proof (induction xs arbitrary: acc)
  case Nil
  then show ?case by simp
next
  case (Cons x xs)
  obtain model pgrid where x: "x = (model, pgrid)" by (cases x)
  obtain best winner where acc: "acc = (best, winner)" by (cases acc)
  show ?case unfolding x acc by (simp add: Cons.IH split: sum.splits)
qed

text \<open>A fit that raises ends the loop with its error, whatever comes after it.\<close>

lemma score_loop_raises:
  assumes "\<forall>p \<in> set pre. \<exists>g. family_fit env e ts p = Inr g"
    and "family_fit env e ts mp = Inl err"
  shows "score_loop env e ts (pre @ mp # post) acc = Inl err"
  using assms(1)
proof (induction pre arbitrary: acc)
  case Nil
  obtain model pgrid where x: "mp = (model, pgrid)" by (cases mp)
  obtain best winner where acc: "acc = (best, winner)" by (cases acc)
  from assms(2) show ?case unfolding x acc by simp
next
  case (Cons x xs)
  obtain model pgrid where x: "x = (model, pgrid)" by (cases x)
  obtain best winner where acc: "acc = (best, winner)" by (cases acc)
  from Cons.prems obtain g where g: "family_fit env e ts (model, pgrid) = Inr g"
    unfolding x by auto
  from Cons.prems have rest: "\<forall>p \<in> set xs. \<exists>g. family_fit env e ts p = Inr g" by simp
  show ?case unfolding x acc using g Cons.IH[OF rest] by simp
qed

text \<open>Families that do not beat the running best leave the accumulator alone.\<close>

lemma score_loop_no_gt:
  assumes "\<forall>p \<in> set fams. \<exists>g. family_fit env e ts p = Inr g \<and> \<not> fgt (best_score g) best"
  shows "score_loop env e ts fams (best, winner) = Inr (best, winner)"
  using assms
proof (induction fams)
  case Nil
  then show ?case by simp
next
  case (Cons x xs)
  obtain model pgrid where x: "x = (model, pgrid)" by (cases x)
  from Cons.prems obtain g where g: "family_fit env e ts (model, pgrid) = Inr g"
      "\<not> fgt (best_score g) best"
    unfolding x by auto
  from Cons.prems have rest:
    "\<forall>p \<in> set xs. \<exists>g. family_fit env e ts p = Inr g \<and> \<not> fgt (best_score g) best" by simp
  show ?case unfolding x using g Cons.IH[OF rest] by simp
qed

text \<open>Families whose best score is NaN or below \<open>s\<close> keep the running best below \<open>s\<close>.\<close>

lemma score_loop_below:
  assumes "\<forall>p \<in> set fams. \<exists>g. family_fit env e ts p = Inr g
             \<and> (best_score g = NaN \<or> fgt s (best_score g))"
    and "fgt s best"
  shows "\<exists>b w. score_loop env e ts fams (best, winner) = Inr (b, w) \<and> fgt s b"
  using assms
proof (induction fams arbitrary: best winner)
  case Nil
  then show ?case by simp
next
  case (Cons x xs)
  obtain model pgrid where x: "x = (model, pgrid)" by (cases x)
  from Cons.prems(1) obtain g where g: "family_fit env e ts (model, pgrid) = Inr g"
      "best_score g = NaN \<or> fgt s (best_score g)"
    unfolding x by auto
  from Cons.prems(1) have rest:
    "\<forall>p \<in> set xs. \<exists>g. family_fit env e ts p = Inr g
        \<and> (best_score g = NaN \<or> fgt s (best_score g))" by simp
  show ?case
  proof (cases "fgt (best_score g) best")
    case True
    with g(2) have "fgt s (best_score g)" by auto
    from Cons.IH[OF rest this] True g(1) show ?thesis unfolding x by simp
  next
    case False
    from Cons.IH[OF rest Cons.prems(2)] False g(1) show ?thesis unfolding x by simp
  qed
qed

lemma winner_ok_mono:
  "winner_ok env e ts fams acc \<Longrightarrow> set fams \<subseteq> set fams' \<Longrightarrow> winner_ok env e ts fams' acc"
  unfolding winner_ok_def by (auto split: prod.splits option.splits)

lemma score_loop_winner_ok:
  assumes "score_loop env e ts fams acc = Inr acc'" and "winner_ok env e ts seen acc"
  shows "winner_ok env e ts (seen @ fams) acc'"
  using assms
proof (induction fams arbitrary: acc seen)
  case Nil
  then show ?case by simp
next
  case (Cons x xs)
  obtain model pgrid where x: "x = (model, pgrid)" by (cases x)
  obtain best winner where acc: "acc = (best, winner)" by (cases acc)
  from Cons.prems(1) obtain g where g: "family_fit env e ts (model, pgrid) = Inr g"
    unfolding x acc by (auto split: sum.splits)
  have bestN: "best = NInf \<or> fgt best NInf"
    using Cons.prems(2) unfolding acc winner_ok_def by (auto split: option.splits)
  show ?case
  proof (cases "fgt (best_score g) best")
    case True
    have gtN: "fgt (best_score g) NInf" using bestN True fgt_trans by auto
    have ok: "winner_ok env e ts (seen @ [x])
                (best_score g, Some (cls_name model, Estimator model (best_params g)))"
      unfolding winner_ok_def using g gtN x by auto
    from Cons.prems(1) True g
    have "score_loop env e ts xs
            (best_score g, Some (cls_name model, Estimator model (best_params g))) = Inr acc'"
      unfolding x acc by simp
    from Cons.IH[OF this ok] show ?thesis by simp
  next
    case False
    have ok: "winner_ok env e ts (seen @ [x]) acc"
      by (rule winner_ok_mono[OF Cons.prems(2)]) auto
    from Cons.prems(1) False g have "score_loop env e ts xs acc = Inr acc'"
      unfolding x acc by simp
    from Cons.IH[OF this ok] show ?thesis by simp
  qed
qed

lemma score_eval_unfold:
  assumes "shuffle_and_scale env e = (Inr ts, e1)"
  shows "fst (score_eval env e) =
     (case score_loop env e1 ts (models_and_params e) (NInf, None) of
        Inl err \<Rightarrow> Inl err
      | Inr (best, None) \<Rightarrow> Inl UnboundLocalError
      | Inr (best, Some (winner_name, winner_model)) \<Rightarrow> Inr (winner_name, winner_model, best))"
  using assms shuffle_and_scale_frame[OF assms]
  by (simp add: score_eval_def split: sum.splits prod.splits option.splits)

text \<open>The concrete library on the concrete experiment, whatever its family list is.\<close>

lemma demo_prep:
  "shuffle_and_scale demo_env (demo_ready\<lparr>models_and_params := fams\<rparr>) =
     (Inr 5, demo_shuffled\<lparr>models_and_params := fams\<rparr>)"
  by (simp add: shuffle_and_scale_def demo_env_def demo_ready_def demo_shuffled_def
      demo_experiment_def MultiExperiment_def)

lemma demo_fit:
  "family_fit demo_env e d (ModelClass ''Broken'', pg) = Inl (LibraryError ''fit failed'')"
  "family_fit demo_env e d (ModelClass ''A'', pg) =
     Inr \<lparr>best_score = Fin (9 / 10), best_params = [(''n_clusters'', PInt 2)]\<rparr>"
  "family_fit demo_env e d (ModelClass ''A2'', pg) =
     Inr \<lparr>best_score = Fin (9 / 10), best_params = [(''n_clusters'', PInt 4)]\<rparr>"
  "family_fit demo_env e d (ModelClass ''N'', pg) = Inr \<lparr>best_score = NaN, best_params = []\<rparr>"
  "family_fit demo_env e d (ModelClass ''B'', pg) =
     Inr \<lparr>best_score = Fin (3 / 10), best_params = []\<rparr>"
  by (simp_all add: family_fit_def demo_env_def)

text \<open>
  Claim C1, as the source has it. \<^verbatim>\<open>score_eval\<close> wraps no handler around
  \<^verbatim>\<open>grid.fit\<close> and passes no \<^verbatim>\<open>error_score\<close> to \<^verbatim>\<open>GridSearchCV\<close>: when the
  fit of a family raises, the families before it having been fitted, \<^verbatim>\<open>score_eval\<close>
  raises that error. The families after it play no part in the outcome, and no triple
  is returned.
\<close>

theorem score_eval_fit_error:
  assumes prep: "shuffle_and_scale env e = (Inr ts, e1)"
    and fams: "models_and_params e = pre @ mp # post"
    and before: "\<forall>p \<in> set pre. \<exists>g. family_fit env e1 ts p = Inr g"
    and raises: "family_fit env e1 ts mp = Inl err"
  shows "fst (score_eval env e) = Inl err"
  using score_eval_unfold[OF prep] score_loop_raises[OF before raises, of post "(NInf, None)"]
  by (simp add: fams)

theorem score_eval_fit_error_witness:
  "shuffle_and_scale demo_env
     (demo_ready\<lparr>models_and_params :=
        [(ModelClass ''B'', [])] @ (ModelClass ''Broken'', []) # [(ModelClass ''A'', [])]\<rparr>) =
     (Inr 5, demo_shuffled\<lparr>models_and_params :=
        [(ModelClass ''B'', [])] @ (ModelClass ''Broken'', []) # [(ModelClass ''A'', [])]\<rparr>)
   \<and> family_fit demo_env
        (demo_shuffled\<lparr>models_and_params :=
           [(ModelClass ''B'', [])] @ (ModelClass ''Broken'', []) # [(ModelClass ''A'', [])]\<rparr>)
        5 (ModelClass ''B'', []) = Inr \<lparr>best_score = Fin (3 / 10), best_params = []\<rparr>
   \<and> family_fit demo_env
        (demo_shuffled\<lparr>models_and_params :=
           [(ModelClass ''B'', [])] @ (ModelClass ''Broken'', []) # [(ModelClass ''A'', [])]\<rparr>)
        5 (ModelClass ''Broken'', []) = Inl (LibraryError ''fit failed'')
   \<and> fst (score_eval demo_env
        (demo_ready\<lparr>models_and_params :=
           [(ModelClass ''B'', [])] @ (ModelClass ''Broken'', []) # [(ModelClass ''A'', [])]\<rparr>)) =
       Inl (LibraryError ''fit failed'')"
proof -
  let ?fams = "[(ModelClass ''B'', [])] @ (ModelClass ''Broken'', []) # [(ModelClass ''A'', [])]"
  let ?e = "demo_ready\<lparr>models_and_params := ?fams\<rparr>"
  let ?e1 = "demo_shuffled\<lparr>models_and_params := ?fams\<rparr>"
  have prep: "shuffle_and_scale demo_env ?e = (Inr 5, ?e1)" by (rule demo_prep)
  have fams: "models_and_params ?e = ?fams" by simp
  have b: "family_fit demo_env ?e1 5 (ModelClass ''B'', []) =
             Inr \<lparr>best_score = Fin (3 / 10), best_params = []\<rparr>"
    by (rule demo_fit)
  then have before: "\<forall>p \<in> set [(ModelClass ''B'', [])]. \<exists>g. family_fit demo_env ?e1 5 p = Inr g"
    by simp
  have raises: "family_fit demo_env ?e1 5 (ModelClass ''Broken'', []) =
                  Inl (LibraryError ''fit failed'')"
    by (rule demo_fit)
  from score_eval_fit_error[OF prep fams before raises] prep b raises show ?thesis
    by (intro conjI)
qed

text \<open>
  The claim as stated fails: with the families \<^verbatim>\<open>B\<close>, \<^verbatim>\<open>Broken\<close>, \<^verbatim>\<open>A\<close>, where the
  fit of \<^verbatim>\<open>Broken\<close> raises and \<^verbatim>\<open>A\<close> would score 0.9, \<^verbatim>\<open>score_eval\<close> returns no
  triple but the error of the fit.
\<close>

theorem score_eval_fit_error_counterexample:
  "fst (score_eval demo_env
         (demo_ready\<lparr>models_and_params :=
            [(ModelClass ''B'', []), (ModelClass ''Broken'', []), (ModelClass ''A'', [])]\<rparr>)) =
     Inl (LibraryError ''fit failed'')
   \<and> family_fit demo_env
        (demo_shuffled\<lparr>models_and_params :=
           [(ModelClass ''B'', []), (ModelClass ''Broken'', []), (ModelClass ''A'', [])]\<rparr>)
        5 (ModelClass ''A'', []) =
       Inr \<lparr>best_score = Fin (9 / 10), best_params = [(''n_clusters'', PInt 2)]\<rparr>"
  by (simp add: score_eval_def demo_prep demo_fit)

text \<open>
  Claim C7. The families are compared in the order of \<^verbatim>\<open>models_and_params\<close> with a
  strict \<^verbatim>\<open>>\<close>: when two families attain the same best score, which exceeds
  \<^verbatim>\<open>-inf\<close>, which every family registered before the first of the two stays below (or
  has NaN) and which no other family exceeds, then \<^verbatim>\<open>score_eval\<close> returns the name,
  the model and the score of the family registered first.
\<close>

theorem score_eval_tie_break:
  assumes prep: "shuffle_and_scale env e = (Inr ts, e1)"
    and fams: "models_and_params e = pre @ (ma, pa) # mid @ (mb, pb) # post"
    and fa: "family_fit env e1 ts (ma, pa) = Inr ga"
    and fb: "family_fit env e1 ts (mb, pb) = Inr gb"
    and tie: "best_score gb = best_score ga"
    and top: "fgt (best_score ga) NInf"
    and before: "\<forall>p \<in> set pre. \<exists>g. family_fit env e1 ts p = Inr g
                   \<and> (best_score g = NaN \<or> fgt (best_score ga) (best_score g))"
    and others: "\<forall>p \<in> set (mid @ post). \<exists>g. family_fit env e1 ts p = Inr g
                   \<and> \<not> fgt (best_score g) (best_score ga)"
  shows "fst (score_eval env e) = Inr (cls_name ma, Estimator ma (best_params ga), best_score ga)"
proof -
  let ?w = "Some (cls_name ma, Estimator ma (best_params ga))"
  from score_loop_below[OF before top, of None]
  obtain b w where pre: "score_loop env e1 ts pre (NInf, None) = Inr (b, w)"
    and b: "fgt (best_score ga) b"
    by blast
  have irrefl: "\<not> fgt (best_score ga) (best_score ga)" using fgt_not_sym by blast
  have "\<forall>p \<in> set (mid @ (mb, pb) # post). \<exists>g. family_fit env e1 ts p = Inr g
           \<and> \<not> fgt (best_score g) (best_score ga)"
    using others fb tie irrefl by auto
  from score_loop_no_gt[OF this, of ?w]
  have rest: "score_loop env e1 ts (mid @ (mb, pb) # post) (best_score ga, ?w) =
                Inr (best_score ga, ?w)" .
  have "score_loop env e1 ts (models_and_params e) (NInf, None) = Inr (best_score ga, ?w)"
    unfolding fams using pre b fa rest by (simp add: score_loop_append)
  with score_eval_unfold[OF prep] show ?thesis by simp
qed

theorem score_eval_tie_break_witness:
  "shuffle_and_scale demo_env (demo_ready\<lparr>models_and_params := demo_tie\<rparr>) =
     (Inr 5, demo_shuffled\<lparr>models_and_params := demo_tie\<rparr>)
   \<and> demo_tie = [(ModelClass ''B'', [])] @ (ModelClass ''A'', []) # [(ModelClass ''N'', [])]
        @ (ModelClass ''A2'', []) # [(ModelClass ''B'', [])]
   \<and> best_score \<lparr>best_score = Fin (9 / 10), best_params = [(''n_clusters'', PInt 4)]\<rparr> =
       best_score \<lparr>best_score = Fin (9 / 10), best_params = [(''n_clusters'', PInt 2)]\<rparr>
   \<and> fgt (Fin (9 / 10)) NInf \<and> fgt (Fin (9 / 10)) (Fin (3 / 10)) \<and> \<not> fgt NaN (Fin (9 / 10))
   \<and> \<not> fgt (Fin (3 / 10)) (Fin (9 / 10))
   \<and> fst (score_eval demo_env (demo_ready\<lparr>models_and_params := demo_tie\<rparr>)) =
       Inr (''A'', Estimator (ModelClass ''A'') [(''n_clusters'', PInt 2)], Fin (9 / 10))"
proof -
  let ?e = "demo_ready\<lparr>models_and_params := demo_tie\<rparr>"
  let ?e1 = "demo_shuffled\<lparr>models_and_params := demo_tie\<rparr>"
  let ?ga = "\<lparr>best_score = Fin (9 / 10), best_params = [(''n_clusters'', PInt 2)]\<rparr>"
  let ?gb = "\<lparr>best_score = Fin (9 / 10), best_params = [(''n_clusters'', PInt 4)]\<rparr>"
  have prep: "shuffle_and_scale demo_env ?e = (Inr 5, ?e1)" by (rule demo_prep)
  have fams: "models_and_params ?e = [(ModelClass ''B'', [])] @ (ModelClass ''A'', [])
                # [(ModelClass ''N'', [])] @ (ModelClass ''A2'', []) # [(ModelClass ''B'', [])]"
    by (simp add: demo_tie_def)
  have fa: "family_fit demo_env ?e1 5 (ModelClass ''A'', []) = Inr ?ga" by (rule demo_fit)
  have fb: "family_fit demo_env ?e1 5 (ModelClass ''A2'', []) = Inr ?gb" by (rule demo_fit)
  have tie: "best_score ?gb = best_score ?ga" by simp
  have top: "fgt (best_score ?ga) NInf" by simp
  have before: "\<forall>p \<in> set [(ModelClass ''B'', [])]. \<exists>g. family_fit demo_env ?e1 5 p = Inr g
                  \<and> (best_score g = NaN \<or> fgt (best_score ?ga) (best_score g))"
    by (simp add: demo_fit)
  have others: "\<forall>p \<in> set ([(ModelClass ''N'', [])] @ [(ModelClass ''B'', [])]).
                  \<exists>g. family_fit demo_env ?e1 5 p = Inr g
                  \<and> \<not> fgt (best_score g) (best_score ?ga)"
    by (simp add: demo_fit)
  from score_eval_tie_break[OF prep fams fa fb tie top before others] prep
  show ?thesis by (simp add: demo_tie_def)
qed

text \<open>
  Claim C9. \<^verbatim>\<open>winner_name\<close> is bound in the branch of the strict comparison only.
  When \<^verbatim>\<open>score_eval\<close> returns a triple, it is the name, the model and the best
  score of a registered family whose best score strictly exceeds \<^verbatim>\<open>-inf\<close>. When every
  fit returns and no best score exceeds \<^verbatim>\<open>-inf\<close> (all of them NaN or \<^verbatim>\<open>-inf\<close>, or
  no family registered), \<^verbatim>\<open>score_eval\<close> raises \<^verbatim>\<open>UnboundLocalError\<close>.
\<close>

theorem score_eval_unbound:
  "(fst (score_eval env e) = Inr (name, est, s) \<longrightarrow>
      (\<exists>ts e1 model pgrid g.
          shuffle_and_scale env e = (Inr ts, e1)
        \<and> (model, pgrid) \<in> set (models_and_params e)
        \<and> family_fit env e1 ts (model, pgrid) = Inr g
        \<and> fgt (best_score g) NInf
        \<and> name = cls_name model \<and> est = Estimator model (best_params g) \<and> s = best_score g))
 \<and> (shuffle_and_scale env e = (Inr ts', e1')
      \<and> (\<forall>mp \<in> set (models_and_params e).
            \<exists>g. family_fit env e1' ts' mp = Inr g \<and> \<not> fgt (best_score g) NInf) \<longrightarrow>
      fst (score_eval env e) = Inl UnboundLocalError)"
proof (intro conjI impI)
  assume r: "fst (score_eval env e) = Inr (name, est, s)"
  obtain p e1 where prep: "shuffle_and_scale env e = (p, e1)"
    by (cases "shuffle_and_scale env e")
  from r prep obtain ts where ts: "p = Inr ts"
    by (cases p) (simp_all add: score_eval_def)
  from r score_eval_unfold[OF prep[unfolded ts]]
  have loop: "score_loop env e1 ts (models_and_params e) (NInf, None) = Inr (s, Some (name, est))"
    by (auto split: sum.splits prod.splits option.splits)
  have "winner_ok env e1 ts [] (NInf, None)" by (simp add: winner_ok_def)
  from score_loop_winner_ok[OF loop this]
  show "\<exists>ts e1 model pgrid g.
          shuffle_and_scale env e = (Inr ts, e1)
        \<and> (model, pgrid) \<in> set (models_and_params e)
        \<and> family_fit env e1 ts (model, pgrid) = Inr g
        \<and> fgt (best_score g) NInf
        \<and> name = cls_name model \<and> est = Estimator model (best_params g) \<and> s = best_score g"
    using prep ts by (auto simp: winner_ok_def)
next
  assume a: "shuffle_and_scale env e = (Inr ts', e1')
      \<and> (\<forall>mp \<in> set (models_and_params e).
            \<exists>g. family_fit env e1' ts' mp = Inr g \<and> \<not> fgt (best_score g) NInf)"
  then have prep: "shuffle_and_scale env e = (Inr ts', e1')" by simp
  from a have "score_loop env e1' ts' (models_and_params e) (NInf, None) = Inr (NInf, None)"
    by (intro score_loop_no_gt) simp
  with score_eval_unfold[OF prep] show "fst (score_eval env e) = Inl UnboundLocalError"
    by simp
qed

theorem score_eval_unbound_witness:
  "fst (score_eval demo_env demo_ready) =
     Inr (''A'', Estimator (ModelClass ''A'') [(''n_clusters'', PInt 2)], Fin (9 / 10))
   \<and> (\<exists>ts e1 model pgrid g.
          shuffle_and_scale demo_env demo_ready = (Inr ts, e1)
        \<and> (model, pgrid) \<in> set (models_and_params demo_ready)
        \<and> family_fit demo_env e1 ts (model, pgrid) = Inr g
        \<and> fgt (best_score g) NInf
        \<and> ''A'' = cls_name model
        \<and> Estimator (ModelClass ''A'') [(''n_clusters'', PInt 2)] = Estimator model (best_params g)
        \<and> Fin (9 / 10) = best_score g)
   \<and> shuffle_and_scale demo_env (demo_ready\<lparr>models_and_params := [(ModelClass ''N'', [])]\<rparr>) =
       (Inr 5, demo_shuffled\<lparr>models_and_params := [(ModelClass ''N'', [])]\<rparr>)
   \<and> family_fit demo_env (demo_shuffled\<lparr>models_and_params := [(ModelClass ''N'', [])]\<rparr>) 5
        (ModelClass ''N'', []) = Inr \<lparr>best_score = NaN, best_params = []\<rparr>
   \<and> \<not> fgt NaN NInf
   \<and> fst (score_eval demo_env (demo_ready\<lparr>models_and_params := [(ModelClass ''N'', [])]\<rparr>)) =
       Inl UnboundLocalError
   \<and> fst (score_eval demo_env (demo_ready\<lparr>models_and_params := []\<rparr>)) = Inl UnboundLocalError"
proof -
  let ?eN = "demo_ready\<lparr>models_and_params := [(ModelClass ''N'', [])]\<rparr>"
  let ?eN1 = "demo_shuffled\<lparr>models_and_params := [(ModelClass ''N'', [])]\<rparr>"
  have ready: "demo_ready = demo_ready\<lparr>models_and_params := demo_models\<rparr>"
    by (simp add: demo_ready_def demo_experiment_def MultiExperiment_def)
  have "shuffle_and_scale demo_env demo_ready = (Inr 5, demo_shuffled\<lparr>models_and_params := demo_models\<rparr>)"
    using demo_prep[of demo_models] ready by simp
  then have ret: "fst (score_eval demo_env demo_ready) =
     Inr (''A'', Estimator (ModelClass ''A'') [(''n_clusters'', PInt 2)], Fin (9 / 10))"
    by (simp add: score_eval_def demo_fit demo_models_def demo_ready_def demo_shuffled_def
        demo_experiment_def MultiExperiment_def)
  have prepN: "shuffle_and_scale demo_env ?eN = (Inr 5, ?eN1)" by (rule demo_prep)
  have fitN: "family_fit demo_env ?eN1 5 (ModelClass ''N'', []) =
                Inr \<lparr>best_score = NaN, best_params = []\<rparr>"
    by (rule demo_fit)
  have allN: "\<forall>mp \<in> set (models_and_params ?eN).
                \<exists>g. family_fit demo_env ?eN1 5 mp = Inr g \<and> \<not> fgt (best_score g) NInf"
    by (simp add: demo_fit)
  have prep0: "shuffle_and_scale demo_env (demo_ready\<lparr>models_and_params := []\<rparr>) =
                 (Inr 5, demo_shuffled\<lparr>models_and_params := []\<rparr>)"
    by (rule demo_prep)
  show ?thesis
    using score_eval_unbound[THEN conjunct1, rule_format, OF ret]
      score_eval_unbound[THEN conjunct2, rule_format, OF conjI[OF prepN allN]]
      score_eval_unbound[THEN conjunct2, rule_format,
        of demo_env "demo_ready\<lparr>models_and_params := []\<rparr>" 5
           "demo_shuffled\<lparr>models_and_params := []\<rparr>"]
      ret prepN fitN prep0
    by simp
qed

subsection \<open>The time target\<close>

lemma compare_models_time: "compare_models env e ''time'' = (Inr PyNone, e)"
  by (simp add: compare_models_def time_eval_def)

lemma execute_loop_time_quiet:
  assumes "verbose e \<le> 0" and "results e = Some rs"
    and "\<forall>(k, d) \<in> set data. \<exists>r c. dict_get rows k = Inr r \<and> dict_get cols k = Inr c"
  shows "fst (execute_loop env ''time'' rows cols data e) = None
       \<and> results (snd (execute_loop env ''time'' rows cols data e)) =
           Some (foldl (\<lambda>rs k. dict_set rs k PyNone) rs (map fst data))"
  using assms
proof (induction data arbitrary: e rs)
  case Nil
  then show ?case by simp
next
  case (Cons kd rest)
  obtain k d where kd: "kd = (k, d)" by (cases kd)
  from Cons.prems(3) obtain r c where rc: "dict_get rows k = Inr r" "dict_get cols k = Inr c"
    unfolding kd by auto
  let ?e3 = "e\<lparr>cur_data := Some d, cur_rows := Some r, cur_cols := Some c,
               results := Some (dict_set rs k PyNone)\<rparr>"
  have v: "verbose ?e3 \<le> 0" using Cons.prems(1) by simp
  have res: "results ?e3 = Some (dict_set rs k PyNone)" by simp
  from Cons.prems(3)
  have rest: "\<forall>(k, d) \<in> set rest. \<exists>r c. dict_get rows k = Inr r \<and> dict_get cols k = Inr c"
    by simp
  have step: "execute_loop env ''time'' rows cols (kd # rest) e =
                execute_loop env ''time'' rows cols rest ?e3"
    unfolding kd using rc Cons.prems(1,2) by (simp add: compare_models_time Let_def)
  from Cons.IH[OF v res rest] show ?case unfolding step by (simp add: kd)
qed

text \<open>
  Claim C6, as the source has it. For the target \<^verbatim>\<open>time\<close>, \<^verbatim>\<open>compare_models\<close>
  raises nothing: it returns the \<^verbatim>\<open>None\<close> of the stub \<^verbatim>\<open>time_eval\<close> and leaves
  the experiment as it was. With \<^verbatim>\<open>verbose\<close> at most 0, \<^verbatim>\<open>execute\<close> then returns
  normally with \<^verbatim>\<open>None\<close> stored as the result of every class of the data; with
  \<^verbatim>\<open>verbose\<close> above 0 it raises, at the first class, the \<^verbatim>\<open>TypeError\<close> of
  unpacking \<^verbatim>\<open>None\<close>. (The ground truth is taken to have an entry for each class.)
\<close>

theorem time_target_returns_none:
  "compare_models env e ''time'' = (Inr PyNone, e)
   \<and> (verbose e \<le> 0
        \<and> (\<forall>(k, d) \<in> set data. \<exists>r c. dict_get rows k = Inr r \<and> dict_get cols k = Inr c) \<longrightarrow>
       fst (execute env e data (rows, cols) ''time'') = None
       \<and> results (snd (execute env e data (rows, cols) ''time'')) =
           Some (foldl (\<lambda>rs k. dict_set rs k PyNone) [] (map fst data)))
   \<and> (verbose e > 0 \<and> dict_get rows k0 = Inr r0 \<and> dict_get cols k0 = Inr c0 \<longrightarrow>
       fst (execute env e ((k0, d0) # rest) (rows, cols) ''time'') = Some TypeError)"
proof (intro conjI impI)
  show "compare_models env e ''time'' = (Inr PyNone, e)" by (rule compare_models_time)
next
  assume a: "verbose e \<le> 0
     \<and> (\<forall>(k, d) \<in> set data. \<exists>r c. dict_get rows k = Inr r \<and> dict_get cols k = Inr c)"
  then have v: "verbose (e\<lparr>results := Some []\<rparr>) \<le> 0" by simp
  have r: "results (e\<lparr>results := Some []\<rparr>) = Some []" by simp
  from a have g: "\<forall>(k, d) \<in> set data. \<exists>r c. dict_get rows k = Inr r \<and> dict_get cols k = Inr c"
    by simp
  from execute_loop_time_quiet[OF v r g, of env]
  show "fst (execute env e data (rows, cols) ''time'') = None"
    and "results (snd (execute env e data (rows, cols) ''time'')) =
           Some (foldl (\<lambda>rs k. dict_set rs k PyNone) [] (map fst data))"
    by (simp_all add: execute_def)
next
  assume "verbose e > 0 \<and> dict_get rows k0 = Inr r0 \<and> dict_get cols k0 = Inr c0"
  then show "fst (execute env e ((k0, d0) # rest) (rows, cols) ''time'') = Some TypeError"
    by (simp add: execute_def compare_models_time Let_def)
qed

theorem time_target_returns_none_witness:
  "verbose demo_experiment \<le> 0
   \<and> dict_get demo_rows ''c1'' = Inr [[True, False]] \<and> dict_get demo_cols ''c1'' = Inr [[True]]
   \<and> dict_get demo_rows ''c2'' = Inr [[False, True]] \<and> dict_get demo_cols ''c2'' = Inr [[True]]
   \<and> fst (execute demo_env demo_experiment demo_data (demo_rows, demo_cols) ''time'') = None
   \<and> results (snd (execute demo_env demo_experiment demo_data (demo_rows, demo_cols) ''time'')) =
       Some [(''c1'', PyNone), (''c2'', PyNone)]
   \<and> verbose (demo_experiment\<lparr>verbose := 1\<rparr>) > 0
   \<and> fst (execute demo_env (demo_experiment\<lparr>verbose := 1\<rparr>) ((''c1'', 5) # [(''c2'', 7)])
            (demo_rows, demo_cols) ''time'') = Some TypeError"
proof -
  have v: "verbose demo_experiment \<le> 0"
    by (simp add: demo_experiment_def MultiExperiment_def)
  have g: "dict_get demo_rows ''c1'' = Inr [[True, False]]"
      "dict_get demo_cols ''c1'' = Inr [[True]]"
      "dict_get demo_rows ''c2'' = Inr [[False, True]]"
      "dict_get demo_cols ''c2'' = Inr [[True]]"
    by (simp_all add: dict_get_def demo_rows_def demo_cols_def)
  then have all: "\<forall>(k, d) \<in> set demo_data.
      \<exists>r c. dict_get demo_rows k = Inr r \<and> dict_get demo_cols k = Inr c"
    by (simp add: demo_data_def)
  have f: "foldl (\<lambda>rs k. dict_set rs k PyNone) [] (map fst demo_data) =
             [(''c1'', PyNone), (''c2'', PyNone)]"
    by (simp add: demo_data_def dict_set_def)
  have v1: "verbose (demo_experiment\<lparr>verbose := 1\<rparr>) > 0" by simp
  from time_target_returns_none[THEN conjunct2, THEN conjunct1, rule_format, OF conjI[OF v all],
      of demo_env]
    time_target_returns_none[THEN conjunct2, THEN conjunct2, rule_format,
      OF conjI[OF v1 conjI[OF g(1) g(2)]], of demo_env 5 "[(''c2'', 7)]"]
    v g f v1
  show ?thesis by simp
qed

text \<open>
  The claim as stated fails: on the concrete experiment, whose \<^verbatim>\<open>verbose\<close> is 0,
  \<^verbatim>\<open>compare_models\<close> returns \<^verbatim>\<open>None\<close> for the target \<^verbatim>\<open>time\<close>, and
  \<^verbatim>\<open>execute\<close> returns without an error, with \<^verbatim>\<open>None\<close> as the result of both
  classes.
\<close>

theorem time_target_returns_none_counterexample:
  "compare_models demo_env demo_ready ''time'' = (Inr PyNone, demo_ready)
   \<and> fst (execute demo_env demo_experiment demo_data (demo_rows, demo_cols) ''time'') = None
   \<and> results (snd (execute demo_env demo_experiment demo_data (demo_rows, demo_cols) ''time'')) =
       Some [(''c1'', PyNone), (''c2'', PyNone)]"
  by (simp add: compare_models_def time_eval_def execute_def demo_experiment_def
      MultiExperiment_def demo_data_def demo_rows_def demo_cols_def dict_get_def dict_set_def)

subsection \<open>The tracker\<close>


lemma keyed_update:
  "list_all2 (keyed R) xs ys \<Longrightarrow> R a b \<Longrightarrow>
   list_all2 (keyed R) (AList.update k a xs) (AList.update k b ys)"
proof (induction xs ys rule: list_all2_induct)
  case Nil
  then show ?case by (simp add: keyed_def)
next
  case (Cons x xs y ys)
  then show ?case by (simp add: keyed_def)
qed

lemma keyed_map_of:
  "list_all2 (keyed R) xs ys \<Longrightarrow> rel_option R (map_of xs k) (map_of ys k)"
  by (induction xs ys rule: list_all2_induct) (auto simp: keyed_def)

lemma keyed_comprehension:
  "list_all2 (keyed R) xs ys \<Longrightarrow> R a b \<Longrightarrow>
   list_all2 (keyed R) (foldl (\<lambda>d k. dict_set d k a) xs ks) (foldl (\<lambda>d k. dict_set d k b) ys ks)"
  by (induction ks arbitrary: xs ys) (simp_all add: dict_set_def keyed_update)

lemma tracker_inv_init: "tracker_inv (PerformanceTracker cs ms)"
  unfolding tracker_inv_def PerformanceTracker_def setup_model_win_stats_def
    setup_model_score_stats_def dict_comprehension_def
  by (simp add: keyed_comprehension)

lemma update_class_success:
  assumes "update_class res c t = (None, t')"
  shows "\<exists>name est score wins n scores h.
    map_of res c = Some (Triple name est score)
    \<and> map_of (winning_stats t) c = Some wins \<and> map_of wins name = Some n
    \<and> map_of (model_scores t) c = Some scores \<and> map_of scores name = Some h
    \<and> t' = t\<lparr>winning_stats := dict_set (winning_stats t) c (dict_set wins name (n + 1)),
             model_scores := dict_set (model_scores t) c (dict_set scores name (h @ [score]))\<rparr>"
  using assms
  by (auto simp: update_class_def dict_get_def Let_def
      split: option.splits pyresult.splits sum.splits)

lemma inv_lookup:
  assumes "tracker_inv t" and "map_of (winning_stats t) c = Some wins" and "map_of wins f = Some n"
  shows "\<exists>scores h. map_of (model_scores t) c = Some scores \<and> map_of scores f = Some h
           \<and> list_all2 (keyed (\<lambda>n h. n = int (length h))) wins scores \<and> n = int (length h)"
proof -
  from keyed_map_of[OF assms(1)[unfolded tracker_inv_def], of c] assms(2)
  obtain scores where s: "map_of (model_scores t) c = Some scores"
    and rel: "list_all2 (keyed (\<lambda>n h. n = int (length h))) wins scores"
    by (auto simp: option_rel_Some1)
  from keyed_map_of[OF rel, of f] assms(3)
  obtain h where "map_of scores f = Some h" "n = int (length h)"
    by (auto simp: option_rel_Some1)
  with s rel show ?thesis by blast
qed

lemma update_class_failure:
  assumes "update_class res c t = (Some e, t')" and "tracker_inv t"
  shows "t' = t"
proof (rule ccontr)
  assume neq: "t' \<noteq> t"
  from assms(1) neq obtain name est score wins n where
    w: "map_of (winning_stats t) c = Some wins" "map_of wins name = Some n"
    and bad: "map_of (model_scores t) c = None
              \<or> (\<exists>scores. map_of (model_scores t) c = Some scores \<and> map_of scores name = None)"
    by (auto simp: update_class_def dict_get_def Let_def
        split: option.splits pyresult.splits sum.splits)
  from inv_lookup[OF assms(2) w] bad show False by auto
qed

lemma update_class_inv:
  assumes "tracker_inv t"
  shows "tracker_inv (snd (update_class res c t))"
proof (cases "update_class res c t")
  case (Pair err t')
  show ?thesis
  proof (cases err)
    case (Some e)
    from update_class_failure[OF Pair[unfolded Some] assms] have "t' = t" .
    with Pair assms show ?thesis by simp
  next
    case None
    from update_class_success[OF Pair[unfolded None]]
    obtain name est score wins n scores h where
      w: "map_of (winning_stats t) c = Some wins" "map_of wins name = Some n"
      and s: "map_of (model_scores t) c = Some scores" "map_of scores name = Some h"
      and t': "t' = t\<lparr>winning_stats := dict_set (winning_stats t) c (dict_set wins name (n + 1)),
             model_scores := dict_set (model_scores t) c (dict_set scores name (h @ [score]))\<rparr>"
      by blast
    from inv_lookup[OF assms w] s
    have rel: "list_all2 (keyed (\<lambda>n h. n = int (length h))) wins scores" and n: "n = int (length h)"
      by auto
    have "list_all2 (keyed (\<lambda>n h. n = int (length h)))
            (dict_set wins name (n + 1)) (dict_set scores name (h @ [score]))"
      unfolding dict_set_def by (rule keyed_update[OF rel]) (simp add: n)
    with assms have "tracker_inv t'"
      unfolding t' tracker_inv_def dict_set_def by (simp add: keyed_update)
    with Pair show ?thesis by simp
  qed
qed

lemma update_loop_inv:
  "tracker_inv t \<Longrightarrow> tracker_inv (snd (update_loop res cs t))"
proof (induction cs arbitrary: t)
  case Nil
  then show ?case by simp
next
  case (Cons c cs)
  obtain err t1 where u: "update_class res c t = (err, t1)" by (cases "update_class res c t")
  from update_class_inv[OF Cons.prems, of res c] u have t1: "tracker_inv t1" by simp
  show ?case
  proof (cases err)
    case None
    with u Cons.IH[OF t1] show ?thesis by simp
  next
    case (Some e)
    with u t1 show ?thesis by simp
  qed
qed

lemma reachable_inv: "reachable t \<Longrightarrow> tracker_inv t"
  by (induction rule: reachable.induct) (simp_all add: tracker_inv_init update_stats_def update_loop_inv)

lemma inv_history_count:
  assumes "tracker_inv t"
  shows "map_option (\<lambda>h. int (length h)) (score_history t c f) = win_count t c f"
proof -
  have outer: "rel_option (list_all2 (keyed (\<lambda>n h. n = int (length h))))
                 (map_of (winning_stats t) c) (map_of (model_scores t) c)"
    using assms unfolding tracker_inv_def by (rule keyed_map_of)
  show ?thesis
  proof (cases "map_of (winning_stats t) c")
    case None
    with outer show ?thesis by (simp add: score_history_def win_count_def)
  next
    case (Some wins)
    with outer obtain scores where s: "map_of (model_scores t) c = Some scores"
      and rel: "list_all2 (keyed (\<lambda>n h. n = int (length h))) wins scores"
      by (auto simp: option_rel_Some1)
    from keyed_map_of[OF rel, of f] show ?thesis
      unfolding score_history_def win_count_def Some s
      by (cases "map_of wins f"; cases "map_of scores f") simp_all
  qed
qed


lemma map_of_comprehension:
  "map_of (foldl (\<lambda>d k. dict_set d k v) d ks) k =
     (if k \<in> set ks then Some v else map_of d k)"
  by (induction ks arbitrary: d) (simp_all add: dict_set_def update_conv')

lemma win_count_init:
  "win_count (PerformanceTracker cs ms) c f =
     (if c \<in> set cs \<and> f \<in> set ms then Some 0 else None)"
  by (simp add: win_count_def PerformanceTracker_def setup_model_win_stats_def
      dict_comprehension_def map_of_comprehension)

lemma tracker_dom_init: "tracker_dom (PerformanceTracker cs ms)"
  by (simp add: tracker_dom_def win_count_init) (simp add: PerformanceTracker_def)

lemma update_class_effect:
  assumes "update_class res c t = (None, t')"
  shows "\<exists>name est score n h.
     map_of res c = Some (Triple name est score)
     \<and> win_count t c name = Some n \<and> score_history t c name = Some h
     \<and> (\<forall>c' f'. win_count t' c' f' =
           (if c' = c \<and> f' = name then Some (n + 1) else win_count t c' f'))
     \<and> (\<forall>c' f'. score_history t' c' f' =
           (if c' = c \<and> f' = name then Some (h @ [score]) else score_history t c' f'))
     \<and> test_classes t' = test_classes t \<and> models t' = models t"
proof -
  from update_class_success[OF assms]
  obtain name est score wins n scores h where
    r: "map_of res c = Some (Triple name est score)"
    and w: "map_of (winning_stats t) c = Some wins" "map_of wins name = Some n"
    and s: "map_of (model_scores t) c = Some scores" "map_of scores name = Some h"
    and t': "t' = t\<lparr>winning_stats := dict_set (winning_stats t) c (dict_set wins name (n + 1)),
             model_scores := dict_set (model_scores t) c (dict_set scores name (h @ [score]))\<rparr>"
    by blast
  have 1: "win_count t c name = Some n" using w by (simp add: win_count_def)
  have 2: "score_history t c name = Some h" using s by (simp add: score_history_def)
  have 3: "\<forall>c' f'. win_count t' c' f' =
           (if c' = c \<and> f' = name then Some (n + 1) else win_count t c' f')"
    using w by (simp add: t' win_count_def dict_set_def update_conv')
  have 4: "\<forall>c' f'. score_history t' c' f' =
           (if c' = c \<and> f' = name then Some (h @ [score]) else score_history t c' f')"
    using s by (simp add: t' score_history_def dict_set_def update_conv')
  have 5: "test_classes t' = test_classes t \<and> models t' = models t" by (simp add: t')
  from r 1 2 3 4 5 show ?thesis by blast
qed

lemma rel_option_refl_prefix: "rel_option prefix (x :: 'a list option) x"
  by (cases x) simp_all

lemma rel_option_refl_le: "rel_option (\<le>) (x :: int option) x"
  by (cases x) simp_all

lemma grows_refl: "grows t t"
  by (simp add: grows_def rel_option_refl_prefix rel_option_refl_le)

lemma rel_option_trans_prefix:
  "rel_option prefix (x :: 'a list option) y \<Longrightarrow> rel_option prefix y z \<Longrightarrow> rel_option prefix x z"
  by (cases x; cases y; cases z) (auto intro: prefix_order.order_trans)

lemma rel_option_trans_le:
  "rel_option (\<le>) (x :: int option) y \<Longrightarrow> rel_option (\<le>) y z \<Longrightarrow> rel_option (\<le>) x z"
  by (cases x; cases y; cases z) auto

lemma grows_trans: "grows a b \<Longrightarrow> grows b c \<Longrightarrow> grows a c"
proof -
  assume ab: "grows a b" and bc: "grows b c"
  have "rel_option prefix (score_history a k f) (score_history c k f)" for k f
    using ab bc rel_option_trans_prefix[of "score_history a k f" "score_history b k f"]
    by (simp add: grows_def)
  moreover have "rel_option (\<le>) (win_count a k f) (win_count c k f)" for k f
    using ab bc rel_option_trans_le[of "win_count a k f" "win_count b k f"]
    by (simp add: grows_def)
  ultimately show ?thesis using ab bc by (simp add: grows_def)
qed

lemma update_class_grows:
  assumes "tracker_inv t"
  shows "grows t (snd (update_class res c t))"
proof (cases "update_class res c t")
  case (Pair err t')
  show ?thesis
  proof (cases err)
    case (Some e)
    from update_class_failure[OF Pair[unfolded Some] assms] Pair show ?thesis
      by (simp add: grows_refl)
  next
    case None
    from update_class_effect[OF Pair[unfolded None]] show ?thesis
      unfolding Pair grows_def
      by (auto simp: rel_option_refl_prefix rel_option_refl_le)
  qed
qed

lemma update_class_dom:
  assumes "tracker_inv t" and "tracker_dom t"
  shows "tracker_dom (snd (update_class res c t))"
proof (cases "update_class res c t")
  case (Pair err t')
  show ?thesis
  proof (cases err)
    case (Some e)
    from update_class_failure[OF Pair[unfolded Some] assms(1)] Pair assms(2) show ?thesis
      by simp
  next
    case None
    from update_class_effect[OF Pair[unfolded None]]
    obtain name n where n: "win_count t c name = Some n"
      and w: "\<forall>c' f'. win_count t' c' f' =
           (if c' = c \<and> f' = name then Some (n + 1) else win_count t c' f')"
      and k: "test_classes t' = test_classes t" "models t' = models t"
      by blast
    have "\<forall>c' f'. (win_count t' c' f' \<noteq> None) = (win_count t c' f' \<noteq> None)"
      using n w by auto
    with assms(2) k show ?thesis unfolding Pair tracker_dom_def by simp
  qed
qed

lemma update_loop_props:
  assumes "tracker_inv t" and "tracker_dom t"
  shows "tracker_dom (snd (update_loop res cs t)) \<and> grows t (snd (update_loop res cs t))"
  using assms
proof (induction cs arbitrary: t)
  case Nil
  then show ?case by (simp add: grows_refl)
next
  case (Cons c cs)
  obtain err t1 where u: "update_class res c t = (err, t1)" by (cases "update_class res c t")
  from update_class_inv[OF Cons.prems(1), of res c] u have i1: "tracker_inv t1" by simp
  from update_class_dom[OF Cons.prems, of res c] u have d1: "tracker_dom t1" by simp
  from update_class_grows[OF Cons.prems(1), of res c] u have g1: "grows t t1" by simp
  show ?case
  proof (cases err)
    case None
    from Cons.IH[OF i1 d1] g1 u None show ?thesis by (auto intro: grows_trans)
  next
    case (Some e)
    with u d1 g1 show ?thesis by simp
  qed
qed

lemma update_stats_props:
  assumes "tracker_inv t" and "tracker_dom t"
  shows "tracker_inv (snd (update_stats t res))" "tracker_dom (snd (update_stats t res))"
    "grows t (snd (update_stats t res))"
  using update_loop_inv[OF assms(1)] update_loop_props[OF assms]
  by (simp_all add: update_stats_def)

lemma reachable_wf: "reachable t \<Longrightarrow> tracker_inv t \<and> tracker_dom t"
  by (induction rule: reachable.induct)
    (simp_all add: tracker_inv_init tracker_dom_init update_stats_props)

text \<open>The effect of a loop that returned, on one class.\<close>

lemma update_loop_effect:
  assumes "update_loop res cs t = (None, t')" and "distinct cs"
  shows "(c \<notin> set cs \<longrightarrow>
            (\<forall>f. win_count t' c f = win_count t c f \<and> score_history t' c f = score_history t c f))
       \<and> (c \<in> set cs \<longrightarrow>
            (\<exists>name est score n h.
               map_of res c = Some (Triple name est score)
               \<and> win_count t c name = Some n \<and> score_history t c name = Some h
               \<and> (\<forall>f. win_count t' c f = (if f = name then Some (n + 1) else win_count t c f))
               \<and> (\<forall>f. score_history t' c f =
                     (if f = name then Some (h @ [score]) else score_history t c f))))"
  using assms
proof (induction cs arbitrary: t)
  case Nil
  then show ?case by simp
next
  case (Cons c0 cs)
  obtain err t1 where u: "update_class res c0 t = (err, t1)" by (cases "update_class res c0 t")
  from Cons.prems(1) u have err: "err = None" by (cases err) simp_all
  from Cons.prems(1) u err have rest: "update_loop res cs t1 = (None, t')" by simp
  from Cons.prems(2) have d: "distinct cs" and c0: "c0 \<notin> set cs" by simp_all
  note IH = Cons.IH[OF rest d]
  from update_class_effect[OF u[unfolded err]]
  obtain name est score n h where
    r: "map_of res c0 = Some (Triple name est score)"
    and w0: "win_count t c0 name = Some n" and s0: "score_history t c0 name = Some h"
    and w: "\<forall>c' f'. win_count t1 c' f' =
           (if c' = c0 \<and> f' = name then Some (n + 1) else win_count t c' f')"
    and s: "\<forall>c' f'. score_history t1 c' f' =
           (if c' = c0 \<and> f' = name then Some (h @ [score]) else score_history t c' f')"
    by blast
  show ?case
  proof (cases "c = c0")
    case True
    with c0 IH have same: "\<forall>f. win_count t' c f = win_count t1 c f
        \<and> score_history t' c f = score_history t1 c f" by simp
    have "\<exists>name est score n h.
               map_of res c = Some (Triple name est score)
               \<and> win_count t c name = Some n \<and> score_history t c name = Some h
               \<and> (\<forall>f. win_count t' c f = (if f = name then Some (n + 1) else win_count t c f))
               \<and> (\<forall>f. score_history t' c f =
                     (if f = name then Some (h @ [score]) else score_history t c f))"
      using r w0 s0 w s same True by (intro exI[of _ name] exI[of _ est] exI[of _ score]
          exI[of _ n] exI[of _ h]) simp
    with True show ?thesis by simp
  next
    case False
    then have eq: "win_count t1 c = win_count t c" "score_history t1 c = score_history t c"
      using w s by (simp_all add: fun_eq_iff)
    from False have "c \<in> set (c0 # cs) \<longleftrightarrow> c \<in> set cs" by simp
    with IH[unfolded eq] show ?thesis by (simp only:)
  qed
qed

lemma demo_update:
  "update_stats demo_tracker demo_results =
     (None, demo_after)"
    "update_stats demo_after demo_results = (None, demo_after2)"
  by (simp_all add: demo_after_def demo_after2_def demo_tracker_def demo_results_def PerformanceTracker_def update_stats_def
      update_class_def dict_get_def dict_set_def setup_model_win_stats_def
      setup_model_score_stats_def dict_comprehension_def)

lemma sum_bump:
  assumes "finite S" and "a \<in> S"
  shows "(\<Sum>x \<in> S. if x = a then g x + 1 else g x) = sum g S + (1 :: int)"
proof -
  have "(\<Sum>x \<in> S. if x = a then g x + 1 else g x)
          = (g a + 1) + (\<Sum>x \<in> S - {a}. if x = a then g x + 1 else g x)"
    using assms by (simp add: sum.remove)
  also have "(\<Sum>x \<in> S - {a}. if x = a then g x + 1 else g x) = sum g (S - {a})"
    by (rule sum.cong) auto
  also have "(g a + 1) + sum g (S - {a}) = sum g S + 1"
    using assms by (simp add: sum.remove)
  finally show ?thesis .
qed

lemma update_stats_total:
  assumes inv: "tracker_inv t" and dom: "tracker_dom t" and d: "distinct (test_classes t)"
    and c: "c \<in> set (test_classes t)" and u: "update_stats t res = (None, t')"
  shows "total_wins t' c = total_wins t c + 1"
proof -
  from u have l: "update_loop res (test_classes t) t = (None, t')" by (simp add: update_stats_def)
  from update_loop_effect[OF l d, of c] c
  obtain name n where w0: "win_count t c name = Some n"
    and w: "\<forall>f. win_count t' c f = (if f = name then Some (n + 1) else win_count t c f)"
    by auto
  from w0 dom have name: "name \<in> set (models t)" by (auto simp: tracker_dom_def)
  from update_stats_props(3)[OF inv dom, of res] u have m: "models t' = models t"
    by (simp add: grows_def)
  let ?g = "\<lambda>f. case win_count t c f of None \<Rightarrow> 0 | Some n \<Rightarrow> n"
  have "(\<Sum>f \<in> set (models t). case win_count t' c f of None \<Rightarrow> 0 | Some n \<Rightarrow> n)
          = (\<Sum>f \<in> set (models t). if f = name then ?g f + 1 else ?g f)"
    by (rule sum.cong) (simp_all add: w w0)
  also have "\<dots> = sum ?g (set (models t)) + 1" by (rule sum_bump) (simp_all add: name)
  finally show ?thesis by (simp add: total_wins_def m)
qed

lemma update_all_total:
  assumes "tracker_inv t" and "tracker_dom t" and "distinct (test_classes t)"
    and "c \<in> set (test_classes t)" and "update_all t rs = (None, t')"
  shows "total_wins t' c = total_wins t c + int (length rs) \<and> models t' = models t"
  using assms
proof (induction rs arbitrary: t)
  case Nil
  then show ?case by simp
next
  case (Cons r rs)
  obtain err t1 where u: "update_stats t r = (err, t1)" by (cases "update_stats t r")
  from Cons.prems(5) u have err: "err = None" by (cases err) simp_all
  from Cons.prems(5) u err have rest: "update_all t1 rs = (None, t')" by simp
  from update_stats_props[OF Cons.prems(1,2), of r] u
  have i1: "tracker_inv t1" and d1: "tracker_dom t1" and g: "grows t t1" by simp_all
  from g have k: "test_classes t1 = test_classes t" "models t1 = models t"
    by (simp_all add: grows_def)
  from update_stats_total[OF Cons.prems(1,2,3,4) u[unfolded err]]
  have s: "total_wins t1 c = total_wins t c + 1" .
  from Cons.IH[OF i1 d1 _ _ rest] Cons.prems(3,4) k s show ?case by simp
qed

text \<open>
  Claim C2. In every tracker that \<^verbatim>\<open>update_stats\<close> calls can produce from a new one,
  the history of each class and family is as long as its counter says, an entry being
  absent from both mappings or from neither. A further call, whether it returns or
  raises, leaves every history a prefix of what it becomes and lowers no counter. When
  the call returns and the test classes are distinct, then for each test class the
  counter of the winner named in the results is incremented, the winner's score is
  appended to its history, and the other families of the class are as before.
\<close>

theorem history_length_is_win_count:
  assumes "reachable t"
  shows "map_option (\<lambda>h. int (length h)) (score_history t c f) = win_count t c f
    \<and> rel_option prefix (score_history t c f) (score_history (snd (update_stats t res)) c f)
    \<and> rel_option (\<le>) (win_count t c f) (win_count (snd (update_stats t res)) c f)
    \<and> (update_stats t res = (None, t') \<and> distinct (test_classes t) \<and> c \<in> set (test_classes t) \<longrightarrow>
         (\<exists>name est score n h.
            map_of res c = Some (Triple name est score)
            \<and> win_count t c name = Some n \<and> score_history t c name = Some h
            \<and> win_count t' c = (win_count t c)(name \<mapsto> n + 1)
            \<and> score_history t' c = (score_history t c)(name \<mapsto> h @ [score])))"
proof -
  from reachable_wf[OF assms] have inv: "tracker_inv t" and dom: "tracker_dom t" by simp_all
  have 1: "map_option (\<lambda>h. int (length h)) (score_history t c f) = win_count t c f"
    by (rule inv_history_count[OF inv])
  from update_stats_props(3)[OF inv dom, of res]
  have 2: "rel_option prefix (score_history t c f) (score_history (snd (update_stats t res)) c f)"
    and 3: "rel_option (\<le>) (win_count t c f) (win_count (snd (update_stats t res)) c f)"
    by (simp_all add: grows_def)
  have 4: "update_stats t res = (None, t') \<and> distinct (test_classes t) \<and> c \<in> set (test_classes t) \<longrightarrow>
         (\<exists>name est score n h.
            map_of res c = Some (Triple name est score)
            \<and> win_count t c name = Some n \<and> score_history t c name = Some h
            \<and> win_count t' c = (win_count t c)(name \<mapsto> n + 1)
            \<and> score_history t' c = (score_history t c)(name \<mapsto> h @ [score]))"
  proof
    assume a: "update_stats t res = (None, t') \<and> distinct (test_classes t) \<and> c \<in> set (test_classes t)"
    then have u: "update_loop res (test_classes t) t = (None, t')" by (simp add: update_stats_def)
    from a update_loop_effect[OF u, of c]
    obtain name est score n h where
      r: "map_of res c = Some (Triple name est score)"
      and w0: "win_count t c name = Some n" and s0: "score_history t c name = Some h"
      and w: "\<forall>f. win_count t' c f = (if f = name then Some (n + 1) else win_count t c f)"
      and s: "\<forall>f. score_history t' c f = (if f = name then Some (h @ [score]) else score_history t c f)"
      by auto
    from w have w': "win_count t' c = (win_count t c)(name \<mapsto> n + 1)" by (simp add: fun_eq_iff)
    from s have s': "score_history t' c = (score_history t c)(name \<mapsto> h @ [score])"
      by (simp add: fun_eq_iff)
    from r w0 s0 w' s' show "\<exists>name est score n h.
            map_of res c = Some (Triple name est score)
            \<and> win_count t c name = Some n \<and> score_history t c name = Some h
            \<and> win_count t' c = (win_count t c)(name \<mapsto> n + 1)
            \<and> score_history t' c = (score_history t c)(name \<mapsto> h @ [score])"
      by blast
  qed
  from 1 2 3 4 show ?thesis by (intro conjI)
qed

theorem history_length_is_win_count_witness:
  "reachable demo_after
   \<and> update_stats demo_after demo_results = (None, demo_after2)
   \<and> distinct (test_classes demo_after) \<and> ''c1'' \<in> set (test_classes demo_after)
   \<and> map_option (\<lambda>h. int (length h)) (score_history demo_after ''c1'' ''A'') =
       win_count demo_after ''c1'' ''A''
   \<and> win_count demo_after ''c1'' ''A'' = Some 1
   \<and> rel_option prefix (score_history demo_after ''c1'' ''A'')
        (score_history (snd (update_stats demo_after demo_results)) ''c1'' ''A'')
   \<and> rel_option (\<le>) (win_count demo_after ''c1'' ''A'')
        (win_count (snd (update_stats demo_after demo_results)) ''c1'' ''A'')
   \<and> (\<exists>name est score n h.
          map_of demo_results ''c1'' = Some (Triple name est score)
        \<and> win_count demo_after ''c1'' name = Some n
        \<and> score_history demo_after ''c1'' name = Some h
        \<and> win_count demo_after2 ''c1'' = (win_count demo_after ''c1'')(name \<mapsto> n + 1)
        \<and> score_history demo_after2 ''c1'' = (score_history demo_after ''c1'')(name \<mapsto> h @ [score]))"
proof -
  have "reachable (snd (update_stats (PerformanceTracker [''c1'', ''c2''] [''A'', ''B'']) demo_results))"
    by (intro reachable_update reachable_init)
  then have r: "reachable demo_after" using demo_update(1) by (simp add: demo_tracker_def)
  have d: "distinct (test_classes demo_after)" "''c1'' \<in> set (test_classes demo_after)"
    by (simp_all add: demo_after_def demo_tracker_def PerformanceTracker_def)
  have w: "win_count demo_after ''c1'' ''A'' = Some 1"
    by (simp add: win_count_def demo_after_def)
  from history_length_is_win_count[OF r, of "''c1''" "''A''" demo_results demo_after2]
    demo_update(2) d r w
  show ?thesis by simp
qed

subsection \<open>The winners of the tracker\<close>


lemma max_loop_le: "\<forall>p \<in> set xs. snd p \<le> snd b \<Longrightarrow> max_loop b xs = b"
  by (induction xs) simp_all

lemma max_loop_first:
  "max_loop b xs = r \<Longrightarrow>
     (r = b \<and> (\<forall>p \<in> set xs. snd p \<le> snd b))
   \<or> (\<exists>pre post. xs = pre @ r # post \<and> snd b < snd r
          \<and> (\<forall>p \<in> set pre. snd p < snd r) \<and> (\<forall>p \<in> set post. snd p \<le> snd r))"
proof (induction xs arbitrary: b)
  case Nil
  then show ?case by simp
next
  case (Cons x xs)
  show ?case
  proof (cases "snd x > snd b")
    case True
    with Cons.prems have m: "max_loop x xs = r" by simp
    from Cons.IH[OF m] show ?thesis
    proof
      assume a: "r = x \<and> (\<forall>p \<in> set xs. snd p \<le> snd x)"
      then have "x # xs = [] @ r # xs \<and> snd b < snd r
          \<and> (\<forall>p \<in> set []. snd p < snd r) \<and> (\<forall>p \<in> set xs. snd p \<le> snd r)"
        using True by simp
      then show ?thesis by blast
    next
      assume "\<exists>pre post. xs = pre @ r # post \<and> snd x < snd r
          \<and> (\<forall>p \<in> set pre. snd p < snd r) \<and> (\<forall>p \<in> set post. snd p \<le> snd r)"
      then obtain pre post where p: "xs = pre @ r # post" "snd x < snd r"
          "\<forall>p \<in> set pre. snd p < snd r" "\<forall>p \<in> set post. snd p \<le> snd r"
        by blast
      then have "x # xs = (x # pre) @ r # post \<and> snd b < snd r
          \<and> (\<forall>p \<in> set (x # pre). snd p < snd r) \<and> (\<forall>p \<in> set post. snd p \<le> snd r)"
        using True by simp
      then show ?thesis by blast
    qed
  next
    case False
    with Cons.prems have m: "max_loop b xs = r" by simp
    from Cons.IH[OF m] show ?thesis
    proof
      assume "r = b \<and> (\<forall>p \<in> set xs. snd p \<le> snd b)"
      with False show ?thesis by simp
    next
      assume "\<exists>pre post. xs = pre @ r # post \<and> snd b < snd r
          \<and> (\<forall>p \<in> set pre. snd p < snd r) \<and> (\<forall>p \<in> set post. snd p \<le> snd r)"
      then obtain pre post where p: "xs = pre @ r # post" "snd b < snd r"
          "\<forall>p \<in> set pre. snd p < snd r" "\<forall>p \<in> set post. snd p \<le> snd r"
        by blast
      then have "x # xs = (x # pre) @ r # post \<and> snd b < snd r
          \<and> (\<forall>p \<in> set (x # pre). snd p < snd r) \<and> (\<forall>p \<in> set post. snd p \<le> snd r)"
        using False by simp
      then show ?thesis by blast
    qed
  qed
qed

lemma py_max_first:
  assumes "py_max cands = Inr (f, n)"
  shows "\<exists>pre post. cands = pre @ (f, n) # post
           \<and> (\<forall>p \<in> set pre. snd p < n) \<and> (\<forall>p \<in> set post. snd p \<le> n)"
proof (cases cands)
  case Nil
  with assms show ?thesis by (simp add: py_max_def)
next
  case (Cons b xs)
  with assms have m: "max_loop b xs = (f, n)" by (simp add: py_max_def)
  from max_loop_first[OF m] show ?thesis
  proof
    assume "(f, n) = b \<and> (\<forall>p \<in> set xs. snd p \<le> snd b)"
    then have "cands = [] @ (f, n) # xs \<and> (\<forall>p \<in> set []. snd p < n) \<and> (\<forall>p \<in> set xs. snd p \<le> n)"
      using Cons by auto
    then show ?thesis by blast
  next
    assume "\<exists>pre post. xs = pre @ (f, n) # post \<and> snd b < snd (f, n)
          \<and> (\<forall>p \<in> set pre. snd p < snd (f, n)) \<and> (\<forall>p \<in> set post. snd p \<le> snd (f, n))"
    then obtain pre post where p: "xs = pre @ (f, n) # post" "snd b < n"
        "\<forall>p \<in> set pre. snd p < n" "\<forall>p \<in> set post. snd p \<le> n"
      by auto
    then have "cands = (b # pre) @ (f, n) # post \<and> (\<forall>p \<in> set (b # pre). snd p < n)
        \<and> (\<forall>p \<in> set post. snd p \<le> n)"
      using Cons by simp
    then show ?thesis by blast
  qed
qed

lemma py_max_returns:
  assumes "cands \<noteq> []"
  shows "\<exists>f n. py_max cands = Inr (f, n)"
proof (cases cands)
  case Nil
  with assms show ?thesis by simp
next
  case (Cons b xs)
  obtain f n where "max_loop b xs = (f, n)" by (cases "max_loop b xs")
  with Cons show ?thesis by (simp add: py_max_def)
qed

lemma winner_loop_other:
  "winner_loop t cs w = Inr ws \<Longrightarrow> c \<notin> set cs \<Longrightarrow> map_of ws c = map_of w c"
proof (induction cs arbitrary: w)
  case Nil
  then show ?case by simp
next
  case (Cons c0 cs)
  from Cons.prems(1) obtain cands f n where
    "winner_loop t cs (dict_set w c0 f) = Inr ws"
    by (auto simp: dict_get_def split: option.splits sum.splits prod.splits)
  from Cons.IH[OF this] Cons.prems(2) show ?case
    by (simp add: dict_set_def update_conv')
qed

lemma winner_loop_entry:
  "winner_loop t cs w = Inr ws \<Longrightarrow> c \<in> set cs \<Longrightarrow>
   \<exists>cands f n. map_of (winning_stats t) c = Some cands \<and> py_max cands = Inr (f, n)
      \<and> map_of ws c = Some f"
proof (induction cs arbitrary: w)
  case Nil
  then show ?case by simp
next
  case (Cons c0 cs)
  from Cons.prems(1) obtain cands f n where
    c0: "map_of (winning_stats t) c0 = Some cands" "py_max cands = Inr (f, n)"
    and rest: "winner_loop t cs (dict_set w c0 f) = Inr ws"
    by (auto simp: dict_get_def split: option.splits sum.splits prod.splits)
  show ?case
  proof (cases "c \<in> set cs")
    case True
    from Cons.IH[OF rest True] show ?thesis .
  next
    case False
    with Cons.prems(2) have eq: "c = c0" by simp
    from winner_loop_other[OF rest False] have "map_of ws c = Some f"
      by (simp add: eq dict_set_def update_conv')
    with c0 eq show ?thesis by blast
  qed
qed

lemma winner_loop_returns:
  "\<forall>c \<in> set cs. \<exists>cands. map_of (winning_stats t) c = Some cands \<and> cands \<noteq> [] \<Longrightarrow>
   \<exists>ws. winner_loop t cs w = Inr ws"
proof (induction cs arbitrary: w)
  case Nil
  then show ?case by simp
next
  case (Cons c0 cs)
  from Cons.prems obtain cands where c0: "map_of (winning_stats t) c0 = Some cands" "cands \<noteq> []"
    by auto
  from py_max_returns[OF c0(2)] obtain f n where m: "py_max cands = Inr (f, n)" by blast
  from Cons.prems have "\<forall>c \<in> set cs. \<exists>cands. map_of (winning_stats t) c = Some cands \<and> cands \<noteq> []"
    by simp
  from Cons.IH[OF this, of "dict_set w c0 f"] c0 m show ?case
    by (simp add: dict_get_def)
qed

lemma comprehension_head:
  "\<forall>p \<in> set d. snd p = v \<Longrightarrow>
   \<exists>rest. foldl (\<lambda>d k. dict_set d k v) ((k0, v) # d) ks = (k0, v) # rest
      \<and> (\<forall>p \<in> set rest. snd p = v)"
proof (induction ks arbitrary: d)
  case Nil
  then show ?case by simp
next
  case (Cons k ks)
  show ?case
  proof (cases "k0 = k")
    case True
    with Cons.IH[OF Cons.prems] show ?thesis by (simp add: dict_set_def)
  next
    case False
    have "\<forall>p \<in> set (AList.update k v d). snd p = v"
      using Cons.prems by (induction d) auto
    from Cons.IH[OF this] False show ?thesis by (simp add: dict_set_def)
  qed
qed

lemma py_max_comprehension:
  assumes "ms \<noteq> []"
  shows "py_max (dict_comprehension ms 0) = Inr (hd ms, 0)"
proof -
  from assms obtain m rest where ms: "ms = m # rest" by (cases ms) auto
  from comprehension_head[of "[]" 0 m rest]
  obtain tl where c: "dict_comprehension ms 0 = (m, 0) # tl" "\<forall>p \<in> set tl. snd p = (0::int)"
    by (auto simp: dict_comprehension_def ms dict_set_def)
  then have "max_loop (m, 0) tl = (m, 0)" by (intro max_loop_le) simp
  with c ms show ?thesis by (simp add: py_max_def)
qed

lemma winner_loop_init:
  assumes "ms \<noteq> []" and "set cs' \<subseteq> set cs"
  shows "winner_loop (PerformanceTracker cs ms) cs' w =
           Inr (foldl (\<lambda>d k. dict_set d k (hd ms)) w cs')"
  using assms(2)
proof (induction cs' arbitrary: w)
  case Nil
  then show ?case by simp
next
  case (Cons c cs')
  then have c: "c \<in> set cs" and rest: "set cs' \<subseteq> set cs" by simp_all
  from c have "dict_get (winning_stats (PerformanceTracker cs ms)) c = Inr (dict_comprehension ms 0)"
    by (simp add: dict_get_def PerformanceTracker_def setup_model_win_stats_def
        map_of_comprehension)
  with py_max_comprehension[OF assms(1)] Cons.IH[OF rest] show ?case by simp
qed

text \<open>With no registered family, \<^verbatim>\<open>max\<close> raises on the first test class.\<close>

lemma winner_models_no_family:
  "winner_models (PerformanceTracker (c # cs) []) = Inl (ValueError ''max() arg is an empty sequence'')"
proof -
  have "map_of (foldl (\<lambda>d k. dict_set d k ([] :: (label \<times> int) list)) [] (c # cs)) c = Some []"
    by (simp only: map_of_comprehension) simp
  then have "map_of (winning_stats (PerformanceTracker (c # cs) [])) c = Some []"
    by (simp add: PerformanceTracker_def setup_model_win_stats_def dict_comprehension_def)
  then show ?thesis
    by (simp add: winner_models_def dict_get_def py_max_def PerformanceTracker_def)
qed

text \<open>
  Claim C8. On a new tracker with at least one registered family, where all counters
  are zero, \<^verbatim>\<open>winner_models\<close> returns the mapping of every test class to the family
  registered first. More generally, on every tracker that \<^verbatim>\<open>update_stats\<close> calls can
  produce, \<^verbatim>\<open>winner_models\<close> returns a mapping and raises nothing, and the winner of
  each test class is the first family, in the insertion order of the counters of the
  class, that holds the maximal count: the families before it have fewer wins, those
  after it have no more.
\<close>

theorem winner_models_first_on_tie:
  "(ms \<noteq> [] \<longrightarrow>
      winner_models (PerformanceTracker cs ms) = Inr (dict_comprehension cs (hd ms)))
   \<and> (reachable t \<and> models t \<noteq> [] \<longrightarrow>
        (\<exists>ws. winner_models t = Inr ws
           \<and> (\<forall>c \<in> set (test_classes t).
                 \<exists>cands pre f n post.
                    map_of (winning_stats t) c = Some cands
                  \<and> cands = pre @ (f, n) # post
                  \<and> (\<forall>p \<in> set pre. snd p < n) \<and> (\<forall>p \<in> set post. snd p \<le> n)
                  \<and> map_of ws c = Some f)))"
proof (intro conjI impI)
  assume "ms \<noteq> []"
  from winner_loop_init[OF this subset_refl, of cs "[]"]
  show "winner_models (PerformanceTracker cs ms) = Inr (dict_comprehension cs (hd ms))"
    by (simp add: winner_models_def dict_comprehension_def PerformanceTracker_def)
next
  assume a: "reachable t \<and> models t \<noteq> []"
  with reachable_wf have dom: "tracker_dom t" by blast
  from a obtain f0 where f0: "f0 \<in> set (models t)" by (cases "models t") auto
  have ne: "\<forall>c \<in> set (test_classes t). \<exists>cands. map_of (winning_stats t) c = Some cands \<and> cands \<noteq> []"
  proof
    fix c assume "c \<in> set (test_classes t)"
    with dom f0 have "win_count t c f0 \<noteq> None" by (simp add: tracker_dom_def)
    then show "\<exists>cands. map_of (winning_stats t) c = Some cands \<and> cands \<noteq> []"
      by (auto simp: win_count_def split: option.splits)
  qed
  from winner_loop_returns[OF ne, of "[]"] obtain ws where ws: "winner_models t = Inr ws"
    by (auto simp: winner_models_def)
  have "\<exists>cands pre f n post.
                    map_of (winning_stats t) c = Some cands
                  \<and> cands = pre @ (f, n) # post
                  \<and> (\<forall>p \<in> set pre. snd p < n) \<and> (\<forall>p \<in> set post. snd p \<le> n)
                  \<and> map_of ws c = Some f" if c: "c \<in> set (test_classes t)" for c
  proof -
    from winner_loop_entry[OF ws[unfolded winner_models_def] c]
    obtain cands f n where e: "map_of (winning_stats t) c = Some cands" "py_max cands = Inr (f, n)"
      "map_of ws c = Some f" by blast
    from py_max_first[OF e(2)] e(1,3) show ?thesis by blast
  qed
  with ws show "\<exists>ws. winner_models t = Inr ws
           \<and> (\<forall>c \<in> set (test_classes t).
                 \<exists>cands pre f n post.
                    map_of (winning_stats t) c = Some cands
                  \<and> cands = pre @ (f, n) # post
                  \<and> (\<forall>p \<in> set pre. snd p < n) \<and> (\<forall>p \<in> set post. snd p \<le> n)
                  \<and> map_of ws c = Some f)"
    by blast
qed

theorem winner_models_first_on_tie_witness:
  "[''A'', ''B''] \<noteq> []
   \<and> winner_models (PerformanceTracker [''c1'', ''c2''] [''A'', ''B'']) =
       Inr [(''c1'', ''A''), (''c2'', ''A'')]
   \<and> reachable demo_tied \<and> models demo_tied \<noteq> []
   \<and> winner_models demo_tied = Inr [(''c1'', ''A''), (''c2'', ''B'')]
   \<and> (\<exists>ws. winner_models demo_tied = Inr ws
         \<and> (\<exists>cands pre f n post.
               map_of (winning_stats demo_tied) ''c1'' = Some cands
             \<and> cands = pre @ (f, n) # post \<and> map_of ws ''c1'' = Some f))"
proof -
  have ne: "[''A'', ''B''] \<noteq> ([] :: label list)" by simp
  have c: "dict_comprehension [''c1'', ''c2''] ''A'' = [(''c1'', ''A''), (''c2'', ''A'')]"
    by (simp add: dict_comprehension_def dict_set_def)
  have u: "snd (update_stats (snd (update_stats (PerformanceTracker [''c1'', ''c2''] [''A'', ''B''])
             demo_results_b)) demo_results) = demo_tied"
    by (simp add: demo_tied_def demo_tracker_def demo_results_def demo_results_b_def
        PerformanceTracker_def update_stats_def update_class_def dict_get_def dict_set_def
        setup_model_win_stats_def setup_model_score_stats_def dict_comprehension_def)
  have "reachable (snd (update_stats (snd (update_stats
          (PerformanceTracker [''c1'', ''c2''] [''A'', ''B'']) demo_results_b)) demo_results))"
    by (intro reachable_update reachable_init)
  then have r: "reachable demo_tied" by (simp only: u)
  have m: "models demo_tied \<noteq> []" "''c1'' \<in> set (test_classes demo_tied)"
    by (simp_all add: demo_tied_def demo_tracker_def PerformanceTracker_def)
  have w: "winner_models demo_tied = Inr [(''c1'', ''A''), (''c2'', ''B'')]"
    by (simp add: winner_models_def demo_tied_def demo_tracker_def PerformanceTracker_def
        dict_get_def dict_set_def py_max_def)
  from winner_models_first_on_tie[THEN conjunct2, rule_format, OF conjI[OF r m(1)]] m(2)
  have g: "\<exists>ws. winner_models demo_tied = Inr ws
         \<and> (\<exists>cands pre f n post.
               map_of (winning_stats demo_tied) ''c1'' = Some cands
             \<and> cands = pre @ (f, n) # post \<and> map_of ws ''c1'' = Some f)"
    by blast
  from winner_models_first_on_tie[THEN conjunct1, rule_format, OF ne, of "[''c1'', ''c2'']"] c
  have i: "winner_models (PerformanceTracker [''c1'', ''c2''] [''A'', ''B'']) =
             Inr [(''c1'', ''A''), (''c2'', ''A'')]"
    by simp
  from ne i r m(1) w g show ?thesis by (intro conjI)
qed

subsection \<open>Repeated runs of execute\_all\<close>


lemma jaccard_cong:
  assumes "cur_rows e = cur_rows e'" and "cur_cols e = cur_cols e'"
    and "row_idx e = row_idx e'" and "col_idx e = col_idx e'"
  shows "jaccard env e = jaccard env e'"
proof (rule ext)
  fix est
  show "jaccard env e est = jaccard env e' est"
    unfolding jaccard_def assms by (rule refl)
qed

lemma score_loop_cong:
  assumes "\<And>mp. family_fit env e ts mp = family_fit env e' ts mp"
  shows "score_loop env e ts fams acc = score_loop env e' ts fams acc"
proof (induction fams arbitrary: acc)
  case Nil
  then show ?case by simp
next
  case (Cons x xs)
  obtain model pgrid where x: "x = (model, pgrid)" by (cases x)
  obtain best winner where acc: "acc = (best, winner)" by (cases acc)
  show ?case unfolding x acc by (simp add: assms Cons.IH split: sum.splits)
qed

lemma shuffle_and_scale_step:
  assumes "in_step e e'" and "shuffle_and_scale env e = (r, e1)"
  shows "\<exists>e1'. shuffle_and_scale env e' = (r, e1') \<and> in_step e1 e1'
           \<and> (\<forall>ts. r = Inr ts \<longrightarrow> row_idx e1 = row_idx e1' \<and> col_idx e1 = col_idx e1')"
  using assms
  by (auto simp: shuffle_and_scale_def in_step_def same_config_def Let_def
      split: option.splits sum.splits prod.splits)

lemma score_eval_step:
  assumes "in_step e e'"
  shows "fst (score_eval env e) = fst (score_eval env e')
       \<and> in_step (snd (score_eval env e)) (snd (score_eval env e'))"
proof -
  obtain r e1 where p: "shuffle_and_scale env e = (r, e1)" by (cases "shuffle_and_scale env e")
  from shuffle_and_scale_step[OF assms p] obtain e1' where
    p': "shuffle_and_scale env e' = (r, e1')" and s: "in_step e1 e1'"
    and idx: "\<forall>ts. r = Inr ts \<longrightarrow> row_idx e1 = row_idx e1' \<and> col_idx e1 = col_idx e1'"
    by blast
  show ?thesis
  proof (cases r)
    case (Inl err)
    with p p' s show ?thesis by (simp add: score_eval_def)
  next
    case (Inr ts)
    with idx have i: "row_idx e1 = row_idx e1'" "col_idx e1 = col_idx e1'" by simp_all
    from s have j: "jaccard env e1 = jaccard env e1'"
      by (intro jaccard_cong i) (simp_all add: in_step_def)
    from s have rs: "random_state e1 = random_state e1'" "models_and_params e1 = models_and_params e1'"
      by (simp_all add: in_step_def same_config_def)
    have "score_loop env e1 ts fams acc = score_loop env e1' ts fams acc" for fams acc
      by (rule score_loop_cong) (simp add: family_fit_def j rs)
    with p p' s Inr rs show ?thesis
      by (simp add: score_eval_def split: sum.splits prod.splits option.splits)
  qed
qed

lemma score_eval_keeps:
  "tracker (snd (score_eval env e)) = tracker e \<and> nruns (snd (score_eval env e)) = nruns e
   \<and> results (snd (score_eval env e)) = results e"
proof -
  obtain r e1 where p: "shuffle_and_scale env e = (r, e1)" by (cases "shuffle_and_scale env e")
  from shuffle_and_scale_frame[OF p] p show ?thesis
    by (simp add: score_eval_def split: sum.splits prod.splits option.splits)
qed

lemma compare_models_step:
  assumes "in_step e e'"
  shows "fst (compare_models env e target) = fst (compare_models env e' target)
       \<and> in_step (snd (compare_models env e target)) (snd (compare_models env e' target))"
proof -
  obtain r e1 where a: "score_eval env e = (r, e1)" by (cases "score_eval env e")
  obtain r' e1' where b: "score_eval env e' = (r', e1')" by (cases "score_eval env e'")
  from score_eval_step[OF assms, of env] a b have "r = r'" "in_step e1 e1'" by simp_all
  with a b assms show ?thesis
    by (simp add: compare_models_def time_eval_def split: sum.splits prod.splits)
qed

lemma compare_models_keeps:
  "tracker (snd (compare_models env e target)) = tracker e
   \<and> nruns (snd (compare_models env e target)) = nruns e
   \<and> results (snd (compare_models env e target)) = results e"
proof -
  obtain r e1 where a: "score_eval env e = (r, e1)" by (cases "score_eval env e")
  with score_eval_keeps[of env e] show ?thesis
    by (simp add: compare_models_def split: sum.splits prod.splits)
qed

lemma compare_models_config: "same_config e (snd (compare_models env e target))"
proof -
  obtain r e1 where p: "shuffle_and_scale env e = (r, e1)" by (cases "shuffle_and_scale env e")
  from shuffle_and_scale_frame[OF p] p show ?thesis
    by (simp add: compare_models_def score_eval_def same_config_def
        split: sum.splits prod.splits option.splits)
qed

lemma same_config_refl: "same_config e e"
  by (simp add: same_config_def)

lemma same_config_trans: "same_config a b \<Longrightarrow> same_config b c \<Longrightarrow> same_config a c"
  by (simp add: same_config_def)

lemma same_config_sym: "same_config a b \<Longrightarrow> same_config b a"
  by (simp add: same_config_def)

text \<open>What the loop of \<^verbatim>\<open>execute\<close> leaves alone, and that it keeps a results dict.\<close>

lemma execute_loop_keeps:
  "results e = Some rs \<Longrightarrow>
   tracker (snd (execute_loop env target rows cols data e)) = tracker e
   \<and> nruns (snd (execute_loop env target rows cols data e)) = nruns e
   \<and> same_config e (snd (execute_loop env target rows cols data e))
   \<and> results (snd (execute_loop env target rows cols data e)) \<noteq> None"
proof (induction data arbitrary: e rs)
  case Nil
  then show ?case by (simp add: same_config_refl)
next
  case (Cons kd rest)
  obtain key d where kd: "kd = (key, d)" by (cases kd)
  let ?e1 = "e\<lparr>cur_data := Some d\<rparr>"
  have c1: "same_config e ?e1" by (simp add: same_config_def)
  show ?case
  proof (cases "dict_get rows key")
    case (Inl err)
    with Cons.prems c1 show ?thesis by (simp add: kd Let_def)
  next
    case r: (Inr r)
    show ?thesis
    proof (cases "dict_get cols key")
      case (Inl err)
      with Cons.prems c1 r show ?thesis by (simp add: kd Let_def)
    next
      case c: (Inr c)
      let ?e2 = "?e1\<lparr>cur_rows := Some r, cur_cols := Some c\<rparr>"
      obtain cr e3 where cm: "compare_models env ?e2 target = (cr, e3)"
        by (cases "compare_models env ?e2 target")
      from compare_models_keeps[of env ?e2 target] compare_models_config[of ?e2 env target] cm
        Cons.prems
      have k: "tracker e3 = tracker e" "nruns e3 = nruns e" "results e3 = Some rs"
        "same_config e e3"
        by (simp_all add: same_config_def)
      show ?thesis
      proof (cases cr)
        case (Inl err)
        with r c cm k show ?thesis by (simp add: kd Let_def)
      next
        case (Inr res)
        let ?e4 = "e3\<lparr>results := Some (dict_set rs key res)\<rparr>"
        have r4: "results ?e4 = Some (dict_set rs key res)" by simp
        have k4: "tracker ?e4 = tracker e" "nruns ?e4 = nruns e" "same_config e ?e4"
          using k by (simp_all add: same_config_def)
        from Cons.IH[OF r4, of ] k4 r c cm Inr k(3) show ?thesis
          by (auto simp: kd Let_def same_config_def)
      qed
    qed
  qed
qed

lemma execute_keeps:
  "tracker (snd (execute env e data ind target)) = tracker e
   \<and> nruns (snd (execute env e data ind target)) = nruns e
   \<and> same_config e (snd (execute env e data ind target))
   \<and> results (snd (execute env e data ind target)) \<noteq> None"
proof -
  obtain rows cols where ind: "ind = (rows, cols)" by (cases ind)
  have r: "results (e\<lparr>results := Some []\<rparr>) = Some []" by simp
  from execute_loop_keeps[OF r, of env target rows cols data] show ?thesis
    by (simp add: execute_def ind same_config_def)
qed

text \<open>Two experiments with the same configuration and results run the loop alike.\<close>

lemma execute_loop_step:
  assumes "same_config e e'" and "results e = results e'"
  shows "fst (execute_loop env target rows cols data e) =
           fst (execute_loop env target rows cols data e')
       \<and> results (snd (execute_loop env target rows cols data e)) =
           results (snd (execute_loop env target rows cols data e'))"
  using assms
proof (induction data arbitrary: e e')
  case Nil
  then show ?case by simp
next
  case (Cons kd rest)
  obtain key d where kd: "kd = (key, d)" by (cases kd)
  show ?case
  proof (cases "dict_get rows key")
    case (Inl err)
    with Cons.prems show ?thesis by (simp add: kd Let_def)
  next
    case r: (Inr r)
    show ?thesis
    proof (cases "dict_get cols key")
      case (Inl err)
      with Cons.prems r show ?thesis by (simp add: kd Let_def)
    next
      case c: (Inr c)
      let ?e2 = "e\<lparr>cur_data := Some d, cur_rows := Some r, cur_cols := Some c\<rparr>"
      let ?e2' = "e'\<lparr>cur_data := Some d, cur_rows := Some r, cur_cols := Some c\<rparr>"
      have s: "in_step ?e2 ?e2'" using Cons.prems by (simp add: in_step_def same_config_def)
      obtain cr e3 where cm: "compare_models env ?e2 target = (cr, e3)"
        by (cases "compare_models env ?e2 target")
      obtain cr' e3' where cm': "compare_models env ?e2' target = (cr', e3')"
        by (cases "compare_models env ?e2' target")
      from compare_models_step[OF s, of env target] cm cm'
      have eq: "cr' = cr" and s3: "in_step e3 e3'" by simp_all
      show ?thesis
      proof (cases cr)
        case (Inl err)
        with r c cm cm' eq s3 show ?thesis by (simp add: kd Let_def in_step_def)
      next
        case (Inr res)
        show ?thesis
        proof (cases "results e3")
          case None
          with s3 have "results e3' = None" by (simp add: in_step_def)
          with None r c cm cm' eq Inr show ?thesis by (simp add: kd Let_def)
        next
          case (Some rs)
          with s3 have rs': "results e3' = Some rs" by (simp add: in_step_def)
          let ?e4 = "e3\<lparr>results := Some (dict_set rs key res)\<rparr>"
          let ?e4' = "e3'\<lparr>results := Some (dict_set rs key res)\<rparr>"
          have c4: "same_config ?e4 ?e4'" "results ?e4 = results ?e4'"
            using s3 by (simp_all add: in_step_def same_config_def)
          have v: "verbose e3 = verbose e3'" using s3 by (simp add: in_step_def same_config_def)
          from Cons.IH[OF c4] r c cm cm' eq Inr Some rs' v show ?thesis
            by (simp add: kd Let_def)
        qed
      qed
    qed
  qed
qed

lemma execute_step:
  assumes "same_config e e'"
  shows "fst (execute env e data ind target) = fst (execute env e' data ind target)
       \<and> results (snd (execute env e data ind target)) =
           results (snd (execute env e' data ind target))"
proof -
  obtain rows cols where ind: "ind = (rows, cols)" by (cases ind)
  have c: "same_config (e\<lparr>results := Some []\<rparr>) (e'\<lparr>results := Some []\<rparr>)"
    using assms by (simp add: same_config_def)
  have r: "results (e\<lparr>results := Some []\<rparr>) = results (e'\<lparr>results := Some []\<rparr>)" by simp
  from execute_loop_step[OF c r, of env target rows cols data] show ?thesis
    by (simp add: execute_def ind)
qed


lemma update_all_append:
  "update_all t (xs @ ys) =
     (case update_all t xs of (Some e, t') \<Rightarrow> (Some e, t') | (None, t') \<Rightarrow> update_all t' ys)"
proof (induction xs arbitrary: t)
  case Nil
  then show ?case by simp
next
  case (Cons x xs)
  obtain err t1 where u: "update_stats t x = (err, t1)" by (cases "update_stats t x")
  show ?case by (cases err) (simp_all add: u Cons.IH)
qed

lemma class_loop_updates:
  assumes ok: "\<forall>ds \<in> set dataset. fst (execute env e (fst ds) (snd ds) target) = None"
    and cfg: "same_config e e1" and tr: "tracker e1 = Some t"
  shows "fst (class_loop env target dataset e1) =
           fst (update_all t (map (trial_results env e target) dataset))
       \<and> tracker (snd (class_loop env target dataset e1)) =
           Some (snd (update_all t (map (trial_results env e target) dataset)))
       \<and> same_config e (snd (class_loop env target dataset e1))
       \<and> nruns (snd (class_loop env target dataset e1)) = nruns e1"
  using assms
proof (induction dataset arbitrary: e1 t)
  case Nil
  then show ?case by simp
next
  case (Cons ds rest)
  obtain data rows cols where ds: "ds = (data, rows, cols)" by (cases ds)
  obtain err ea where ex: "execute env e1 data (rows, cols) target = (err, ea)"
    by (cases "execute env e1 data (rows, cols) target")
  from Cons.prems(1) have ok0: "fst (execute env e data (rows, cols) target) = None"
    and okr: "\<forall>ds \<in> set rest. fst (execute env e (fst ds) (snd ds) target) = None"
    by (simp_all add: ds)
  from execute_step[OF Cons.prems(2), of env data "(rows, cols)" target] ex ok0
  have err: "err = None"
    and res: "results ea = results (snd (execute env e data (rows, cols) target))"
    by simp_all
  from execute_keeps[of env e1 data "(rows, cols)" target] ex Cons.prems(3)
  have k: "tracker ea = Some t" "nruns ea = nruns e1" "same_config e1 ea" "results ea \<noteq> None"
    by simp_all
  from k(4) obtain r where r: "results ea = Some r" by auto
  from r res have "results (snd (execute env e data (rows, cols) target)) = Some r" by simp
  then have tr: "trial_results env e target ds = r" by (simp add: trial_results_def ds)
  obtain uerr t' where u: "update_stats t r = (uerr, t')" by (cases "update_stats t r")
  let ?e2 = "ea\<lparr>tracker := Some t'\<rparr>"
  have c2: "same_config e ?e2"
    using same_config_trans[OF Cons.prems(2) k(3)] by (simp add: same_config_def)
  show ?case
  proof (cases uerr)
    case (Some x)
    with ex err k r u tr c2 show ?thesis by (simp add: ds)
  next
    case None
    have t2: "tracker ?e2 = Some t'" by simp
    from Cons.IH[OF okr c2 t2] ex err k r u tr None show ?thesis by (simp add: ds)
  qed
qed

lemma run_loop_updates:
  assumes ok: "\<forall>ds \<in> set dataset. fst (execute env e (fst ds) (snd ds) target) = None"
    and cfg: "same_config e e1" and tr: "tracker e1 = Some t"
  shows "fst (run_loop env target dataset n e1) =
           fst (update_all t (concat (replicate n (map (trial_results env e target) dataset))))
       \<and> tracker (snd (run_loop env target dataset n e1)) =
           Some (snd (update_all t
             (concat (replicate n (map (trial_results env e target) dataset)))))"
  using cfg tr
proof (induction n arbitrary: e1 t)
  case 0
  then show ?case by simp
next
  case (Suc n)
  let ?rs = "map (trial_results env e target) dataset"
  obtain err e2 where cl: "class_loop env target dataset e1 = (err, e2)"
    by (cases "class_loop env target dataset e1")
  obtain uerr t' where u: "update_all t ?rs = (uerr, t')" by (cases "update_all t ?rs")
  from class_loop_updates[OF ok Suc.prems] cl u
  have e: "err = uerr" and t2: "tracker e2 = Some t'" and c2: "same_config e e2"
    by simp_all
  show ?case
  proof (cases uerr)
    case (Some x)
    with cl u e t2 show ?thesis by (simp add: update_all_append)
  next
    case None
    from Suc.IH[OF c2 t2] cl u e None show ?thesis by (simp add: update_all_append)
  qed
qed

lemma class_loop_config: "same_config e (snd (class_loop env target dataset e))"
proof (induction dataset arbitrary: e)
  case Nil
  then show ?case by (simp add: same_config_refl)
next
  case (Cons ds rest)
  obtain data rows cols where ds: "ds = (data, rows, cols)" by (cases ds)
  obtain err ea where ex: "execute env e data (rows, cols) target = (err, ea)"
    by (cases "execute env e data (rows, cols) target")
  from execute_keeps[of env e data "(rows, cols)" target] ex
  have c: "same_config e ea" by simp
  have step: "same_config e (snd (class_loop env target rest (ea\<lparr>tracker := x\<rparr>)))" for x
  proof -
    have "same_config e (ea\<lparr>tracker := x\<rparr>)" using c by (simp add: same_config_def)
    from same_config_trans[OF this Cons.IH] show ?thesis .
  qed
  have step0: "same_config e (snd (class_loop env target rest ea))"
    by (rule same_config_trans[OF c Cons.IH])
  have upd: "same_config e (ea\<lparr>tracker := x\<rparr>)" for x using c by (simp add: same_config_def)
  show ?case using ex c step step0 upd
    by (simp add: ds split: option.splits prod.splits)
qed

lemma run_loop_config: "same_config e (snd (run_loop env target dataset n e))"
proof (induction n arbitrary: e)
  case 0
  then show ?case by (simp add: same_config_refl)
next
  case (Suc n)
  obtain err e2 where cl: "class_loop env target dataset e = (err, e2)"
    by (cases "class_loop env target dataset e")
  from class_loop_config[of e env target dataset] cl have c: "same_config e e2" by simp
  from same_config_trans[OF c Suc.IH[of e2]] c cl show ?case by (cases err) simp_all
qed



lemma demo_execute:
  "fst (execute demo_env demo_experiment demo_data (demo_rows, demo_cols) ''score'') = None"
  "results (snd (execute demo_env demo_experiment demo_data (demo_rows, demo_cols) ''score'')) =
     Some demo_results_a"
  by (simp_all add: execute_def compare_models_def score_eval_def shuffle_and_scale_def
      family_fit_def demo_env_def demo_experiment_def demo_models_def MultiExperiment_def
      demo_data_def demo_rows_def demo_cols_def dict_get_def dict_set_def demo_results_a_def)

lemma demo_final_updates:
  "update_all (PerformanceTracker [''c1'', ''c2''] (model_labels demo_experiment))
     (concat (replicate (nat (nruns demo_experiment)) [demo_results_a])) = (None, demo_final)"
  by (simp add: demo_experiment_def demo_models_def MultiExperiment_def model_labels_def
      eval_nat_numeral demo_results_a_def demo_final_def PerformanceTracker_def update_stats_def
      update_class_def dict_get_def dict_set_def setup_model_win_stats_def
      setup_model_score_stats_def dict_comprehension_def)

lemma jaccard_env:
  assumes "consensus_score env = consensus_score env'"
  shows "jaccard env e = jaccard env' e"
proof (rule ext)
  fix est
  show "jaccard env e est = jaccard env' e est"
    unfolding jaccard_def assms by (rule refl)
qed

lemma family_fit_env:
  assumes "agree_at_seed env env' (random_state e)"
  shows "family_fit env e ts mp = family_fit env' e ts mp"
proof -
  from assms have j: "jaccard env e = jaccard env' e"
    by (intro jaccard_env) (simp add: agree_at_seed_def)
  from assms have g: "grid_fit env model (random_state e) = grid_fit env' model (random_state e)"
    for model by (simp add: agree_at_seed_def)
  show ?thesis by (cases mp) (simp add: family_fit_def j g)
qed

lemma score_loop_env:
  assumes "agree_at_seed env env' (random_state e)"
  shows "score_loop env e ts fams acc = score_loop env' e ts fams acc"
proof (induction fams arbitrary: acc)
  case Nil
  then show ?case by simp
next
  case (Cons x xs)
  obtain model pgrid where x: "x = (model, pgrid)" by (cases x)
  obtain best winner where acc: "acc = (best, winner)" by (cases acc)
  show ?case unfolding x acc
    by (simp add: family_fit_env[OF assms] Cons.IH split: sum.splits)
qed

lemma shuffle_and_scale_env:
  assumes "agree_at_seed env env' (random_state e)"
  shows "shuffle_and_scale env e = shuffle_and_scale env' e"
proof -
  from assms have s: "shuffle env d (random_state e) = shuffle env' d (random_state e)" for d
    by (simp add: agree_at_seed_def)
  from assms have f: "fit_transform env = fit_transform env'" by (simp add: agree_at_seed_def)
  show ?thesis unfolding shuffle_and_scale_def s f by (rule refl)
qed

lemma score_eval_env:
  assumes "agree_at_seed env env' (random_state e)"
  shows "score_eval env e = score_eval env' e"
proof -
  obtain r e1 where p: "shuffle_and_scale env' e = (r, e1)" by (cases "shuffle_and_scale env' e")
  from shuffle_and_scale_frame[OF p] assms have a: "agree_at_seed env env' (random_state e1)"
    by simp
  show ?thesis
    by (simp add: score_eval_def shuffle_and_scale_env[OF assms] p score_loop_env[OF a]
        split: sum.splits)
qed

lemma compare_models_env:
  assumes "agree_at_seed env env' (random_state e)"
  shows "compare_models env e target = compare_models env' e target"
  by (simp add: compare_models_def score_eval_env[OF assms])

lemma execute_loop_env:
  assumes "agree_at_seed env env' (random_state e)"
  shows "execute_loop env target rows cols data e = execute_loop env' target rows cols data e"
  using assms
proof (induction data arbitrary: e)
  case Nil
  then show ?case by simp
next
  case (Cons kd rest)
  obtain key d where kd: "kd = (key, d)" by (cases kd)
  show ?case
  proof (cases "dict_get rows key")
    case (Inl err)
    then show ?thesis by (simp add: kd Let_def)
  next
    case r: (Inr r)
    show ?thesis
    proof (cases "dict_get cols key")
      case (Inl err)
      with r show ?thesis by (simp add: kd Let_def)
    next
      case c: (Inr c)
      let ?e2 = "e\<lparr>cur_data := Some d, cur_rows := Some r, cur_cols := Some c\<rparr>"
      have a2: "agree_at_seed env env' (random_state ?e2)" using Cons.prems by simp
      obtain cr e3 where cm: "compare_models env' ?e2 target = (cr, e3)"
        by (cases "compare_models env' ?e2 target")
      from compare_models_config[of ?e2 env' target] cm
      have s3: "random_state e3 = random_state e" by (simp add: same_config_def)
      have step: "execute_loop env target rows cols rest (e3\<lparr>results := x\<rparr>) =
                  execute_loop env' target rows cols rest (e3\<lparr>results := x\<rparr>)" for x
        by (rule Cons.IH) (simp add: s3 Cons.prems)
      show ?thesis
        by (simp add: kd Let_def r c compare_models_env[OF a2] cm step
            split: sum.splits option.splits)
    qed
  qed
qed

lemma execute_env:
  assumes "agree_at_seed env env' (random_state e)"
  shows "execute env e data ind target = execute env' e data ind target"
proof -
  have "agree_at_seed env env' (random_state (e\<lparr>results := Some []\<rparr>))" using assms by simp
  from execute_loop_env[OF this] show ?thesis by (cases ind) (simp add: execute_def)
qed

lemma class_loop_env:
  assumes "agree_at_seed env env' (random_state e)"
  shows "class_loop env target dataset e = class_loop env' target dataset e"
  using assms
proof (induction dataset arbitrary: e)
  case Nil
  then show ?case by simp
next
  case (Cons ds rest)
  obtain data rows cols where ds: "ds = (data, rows, cols)" by (cases ds)
  obtain err ea where ex: "execute env' e data (rows, cols) target = (err, ea)"
    by (cases "execute env' e data (rows, cols) target")
  from execute_keeps[of env' e data "(rows, cols)" target] ex
  have s: "random_state ea = random_state e" by (simp add: same_config_def)
  have step0: "class_loop env target rest ea = class_loop env' target rest ea"
    by (rule Cons.IH) (simp add: s Cons.prems)
  have step: "class_loop env target rest (ea\<lparr>tracker := x\<rparr>) =
              class_loop env' target rest (ea\<lparr>tracker := x\<rparr>)" for x
    by (rule Cons.IH) (simp add: s Cons.prems)
  show ?case
    by (simp add: ds execute_env[OF Cons.prems] ex step step0
        split: option.splits prod.splits)
qed

lemma run_loop_env:
  assumes "agree_at_seed env env' (random_state e)"
  shows "run_loop env target dataset n e = run_loop env' target dataset n e"
  using assms
proof (induction n arbitrary: e)
  case 0
  then show ?case by simp
next
  case (Suc n)
  obtain err e2 where cl: "class_loop env' target dataset e = (err, e2)"
    by (cases "class_loop env' target dataset e")
  from class_loop_config[of e env' target dataset] cl
  have s: "random_state e2 = random_state e" by (simp add: same_config_def)
  have step: "run_loop env target dataset n e2 = run_loop env' target dataset n e2"
    by (rule Suc.IH) (simp add: s Suc.prems)
  show ?case by (simp add: class_loop_env[OF Suc.prems] cl step split: option.splits)
qed

lemma execute_all_env:
  assumes "agree_at_seed env env' (random_state e)"
  shows "execute_all env e dataset classes target = execute_all env' e dataset classes target"
proof -
  have "agree_at_seed env env'
          (random_state (e\<lparr>tracker := Some (PerformanceTracker classes (model_labels e))\<rparr>))"
    using assms by simp
  from run_loop_env[OF this] show ?thesis by (simp add: execute_all_def)
qed

text \<open>The library that reads the seed agrees at the seed 1 with the one that does not,
  and gives another permutation and another winner at the seed 2.\<close>

lemma demo_seeded_agree: "agree_at_seed demo_seeded demo_env 1"
  by (simp add: agree_at_seed_def demo_seeded_def demo_env_def)

lemma demo_seeded_scores:
  "fst (score_eval demo_seeded demo_ready) =
     Inr (''A'', Estimator (ModelClass ''A'') [(''n_clusters'', PInt 2)], Fin (9 / 10))"
  "row_idx (snd (score_eval demo_seeded demo_ready)) = Some [1, 0]"
  "fst (score_eval demo_seeded (demo_ready\<lparr>random_state := 2\<rparr>)) =
     Inr (''B'', Estimator (ModelClass ''B'') [], Fin 1)"
  "row_idx (snd (score_eval demo_seeded (demo_ready\<lparr>random_state := 2\<rparr>))) = Some [0, 1]"
  by (simp_all add: score_eval_def shuffle_and_scale_def family_fit_def demo_seeded_def
      demo_env_def demo_ready_def demo_experiment_def demo_models_def MultiExperiment_def)

text \<open>
  Claim C10. \<^verbatim>\<open>execute_all\<close> passes the one seed of the experiment,
  \<^verbatim>\<open>self.random_state\<close>, to every shuffle and to every grid search, and never changes
  it: two libraries that agree at this seed, however they differ at every other seed,
  give the same \<^verbatim>\<open>score_eval\<close>, the same \<^verbatim>\<open>execute\<close> and the same
  \<^verbatim>\<open>execute_all\<close>, in every run and for every class. With library calls that are
  functions of their arguments, the outcome of \<^verbatim>\<open>execute\<close> is then the same from any
  two experiments with the same configuration, whatever earlier runs have left in the
  other attributes. So when \<^verbatim>\<open>execute\<close> raises nothing on the elements of the data
  set, every run feeds the tracker the same per-class results: after
  \<^verbatim>\<open>execute_all\<close> the tracker is the new tracker updated \<^verbatim>\<open>nruns\<close> times with
  the results of one pass over the data set.
\<close>

theorem repeated_runs_identical:
  "(agree_at_seed env env' (random_state e) \<longrightarrow>
      score_eval env e = score_eval env' e
      \<and> execute env e data ind target = execute env' e data ind target
      \<and> execute_all env e dataset classes target = execute_all env' e dataset classes target)
   \<and> (same_config e e' \<longrightarrow>
      fst (execute env e data ind target) = fst (execute env e' data ind target)
      \<and> results (snd (execute env e data ind target)) =
          results (snd (execute env e' data ind target)))
   \<and> random_state (snd (execute_all env e dataset classes target)) = random_state e
   \<and> ((\<forall>ds \<in> set dataset. fst (execute env e (fst ds) (snd ds) target) = None) \<longrightarrow>
        fst (execute_all env e dataset classes target) =
          fst (update_all (PerformanceTracker classes (model_labels e))
                 (concat (replicate (nat (nruns e)) (map (trial_results env e target) dataset))))
        \<and> tracker (snd (execute_all env e dataset classes target)) =
            Some (snd (update_all (PerformanceTracker classes (model_labels e))
                 (concat (replicate (nat (nruns e)) (map (trial_results env e target) dataset))))))"
proof (intro conjI impI)
  assume a: "agree_at_seed env env' (random_state e)"
  show "score_eval env e = score_eval env' e" by (rule score_eval_env[OF a])
  show "execute env e data ind target = execute env' e data ind target"
    by (rule execute_env[OF a])
  show "execute_all env e dataset classes target = execute_all env' e dataset classes target"
    by (rule execute_all_env[OF a])
next
  assume "same_config e e'"
  from execute_step[OF this, of env data ind target]
  show "fst (execute env e data ind target) = fst (execute env e' data ind target)"
    and "results (snd (execute env e data ind target)) =
          results (snd (execute env e' data ind target))"
    by simp_all
next
  let ?e0 = "e\<lparr>tracker := Some (PerformanceTracker classes (model_labels e))\<rparr>"
  have "same_config e ?e0" by (simp add: same_config_def)
  from same_config_trans[OF this run_loop_config[of ?e0 env target dataset "nat (nruns e)"]]
  show "random_state (snd (execute_all env e dataset classes target)) = random_state e"
    by (simp add: execute_all_def same_config_def)
next
  let ?e0 = "e\<lparr>tracker := Some (PerformanceTracker classes (model_labels e))\<rparr>"
  assume ok: "\<forall>ds \<in> set dataset. fst (execute env e (fst ds) (snd ds) target) = None"
  have c: "same_config e ?e0" by (simp add: same_config_def)
  have t: "tracker ?e0 = Some (PerformanceTracker classes (model_labels e))" by simp
  from run_loop_updates[OF ok c t, of "nat (nruns e)"]
  show "fst (execute_all env e dataset classes target) =
          fst (update_all (PerformanceTracker classes (model_labels e))
                 (concat (replicate (nat (nruns e)) (map (trial_results env e target) dataset))))"
    and "tracker (snd (execute_all env e dataset classes target)) =
            Some (snd (update_all (PerformanceTracker classes (model_labels e))
                 (concat (replicate (nat (nruns e)) (map (trial_results env e target) dataset)))))"
    by (simp_all add: execute_all_def)
qed

theorem repeated_runs_identical_witness:
  "agree_at_seed demo_seeded demo_env (random_state demo_experiment)
   \<and> score_eval demo_seeded demo_experiment = score_eval demo_env demo_experiment
   \<and> execute demo_seeded demo_experiment demo_data (demo_rows, demo_cols) ''score'' =
       execute demo_env demo_experiment demo_data (demo_rows, demo_cols) ''score''
   \<and> execute_all demo_seeded demo_experiment demo_dataset [''c1'', ''c2''] ''score'' =
       execute_all demo_env demo_experiment demo_dataset [''c1'', ''c2''] ''score''
   \<and> fst (score_eval demo_seeded demo_ready) =
       Inr (''A'', Estimator (ModelClass ''A'') [(''n_clusters'', PInt 2)], Fin (9 / 10))
   \<and> fst (score_eval demo_seeded (demo_ready\<lparr>random_state := 2\<rparr>)) =
       Inr (''B'', Estimator (ModelClass ''B'') [], Fin 1)
   \<and> row_idx (snd (score_eval demo_seeded demo_ready)) = Some [1, 0]
   \<and> row_idx (snd (score_eval demo_seeded (demo_ready\<lparr>random_state := 2\<rparr>))) = Some [0, 1]
   \<and> same_config demo_experiment demo_ready
   \<and> fst (execute demo_seeded demo_experiment demo_data (demo_rows, demo_cols) ''score'') =
       fst (execute demo_seeded demo_ready demo_data (demo_rows, demo_cols) ''score'')
   \<and> results (snd (execute demo_seeded demo_experiment demo_data (demo_rows, demo_cols) ''score'')) =
       results (snd (execute demo_seeded demo_ready demo_data (demo_rows, demo_cols) ''score''))
   \<and> fst (execute demo_seeded demo_experiment demo_data (demo_rows, demo_cols) ''score'') = None
   \<and> map (trial_results demo_seeded demo_experiment ''score'') demo_dataset = [demo_results_a]
   \<and> random_state (snd (execute_all demo_seeded demo_experiment demo_dataset [''c1'', ''c2''] ''score'')) = 1
   \<and> fst (execute_all demo_seeded demo_experiment demo_dataset [''c1'', ''c2''] ''score'') = None
   \<and> tracker (snd (execute_all demo_seeded demo_experiment demo_dataset [''c1'', ''c2''] ''score'')) =
       Some demo_final"
proof -
  have seed: "random_state demo_experiment = 1"
    by (simp add: demo_experiment_def MultiExperiment_def)
  have a: "agree_at_seed demo_seeded demo_env (random_state demo_experiment)"
    by (simp only: seed demo_seeded_agree)
  have c: "same_config demo_experiment demo_ready"
    by (simp add: same_config_def demo_ready_def)
  note inst = repeated_runs_identical[of demo_seeded demo_env demo_experiment demo_data
      "(demo_rows, demo_cols)" "''score''" demo_dataset "[''c1'', ''c2'']" demo_ready]
  from inst[THEN conjunct1, THEN mp, OF a]
  have 0: "score_eval demo_seeded demo_experiment = score_eval demo_env demo_experiment"
    "execute demo_seeded demo_experiment demo_data (demo_rows, demo_cols) ''score'' =
       execute demo_env demo_experiment demo_data (demo_rows, demo_cols) ''score''"
    "execute_all demo_seeded demo_experiment demo_dataset [''c1'', ''c2''] ''score'' =
       execute_all demo_env demo_experiment demo_dataset [''c1'', ''c2''] ''score''"
    by simp_all
  have ex: "fst (execute demo_seeded demo_experiment demo_data (demo_rows, demo_cols) ''score'') = None"
    "results (snd (execute demo_seeded demo_experiment demo_data (demo_rows, demo_cols) ''score'')) =
       Some demo_results_a"
    by (simp_all only: 0(2) demo_execute)
  have ok: "\<forall>ds \<in> set demo_dataset.
      fst (execute demo_seeded demo_experiment (fst ds) (snd ds) ''score'') = None"
    by (simp add: demo_dataset_def ex)
  have rs: "map (trial_results demo_seeded demo_experiment ''score'') demo_dataset = [demo_results_a]"
    by (simp add: demo_dataset_def trial_results_def ex)
  from inst[THEN conjunct2, THEN conjunct1, THEN mp, OF c]
  have 1:
    "fst (execute demo_seeded demo_experiment demo_data (demo_rows, demo_cols) ''score'') =
       fst (execute demo_seeded demo_ready demo_data (demo_rows, demo_cols) ''score'')"
    "results (snd (execute demo_seeded demo_experiment demo_data (demo_rows, demo_cols) ''score'')) =
       results (snd (execute demo_seeded demo_ready demo_data (demo_rows, demo_cols) ''score''))"
    by simp_all
  from inst[THEN conjunct2, THEN conjunct2, THEN conjunct1] seed
  have 2: "random_state (snd (execute_all demo_seeded demo_experiment demo_dataset
             [''c1'', ''c2''] ''score'')) = 1"
    by simp
  from inst[THEN conjunct2, THEN conjunct2, THEN conjunct2, THEN mp, OF ok,
      unfolded rs demo_final_updates]
  have 3:
    "fst (execute_all demo_seeded demo_experiment demo_dataset [''c1'', ''c2''] ''score'') = None"
    "tracker (snd (execute_all demo_seeded demo_experiment demo_dataset [''c1'', ''c2''] ''score'')) =
       Some demo_final"
    by simp_all
  from a 0 demo_seeded_scores(1) demo_seeded_scores(3) demo_seeded_scores(2)
    demo_seeded_scores(4) c 1 ex(1) rs 2 3
  show ?thesis by (intro conjI)
qed

subsection \<open>Wins and trials\<close>


lemma class_loop_returned:
  assumes "fst (class_loop env target dataset e1) = None" and "same_config e e1"
  shows "\<forall>ds \<in> set dataset. fst (execute env e (fst ds) (snd ds) target) = None"
  using assms
proof (induction dataset arbitrary: e1)
  case Nil
  then show ?case by simp
next
  case (Cons ds rest)
  obtain data rows cols where ds: "ds = (data, rows, cols)" by (cases ds)
  obtain err ea where ex: "execute env e1 data (rows, cols) target = (err, ea)"
    by (cases "execute env e1 data (rows, cols) target")
  from Cons.prems(1) ex have err: "err = None" by (cases err) (simp_all add: ds)
  from execute_step[OF Cons.prems(2), of env data "(rows, cols)" target] ex err
  have here: "fst (execute env e data (rows, cols) target) = None" by simp
  from execute_keeps[of env e1 data "(rows, cols)" target] ex
  have c: "same_config e1 ea" by simp
  have cfg: "same_config e (ea\<lparr>tracker := x\<rparr>)" for x
    using same_config_trans[OF Cons.prems(2) c] by (simp add: same_config_def)
  have cfg0: "same_config e ea" by (rule same_config_trans[OF Cons.prems(2) c])
  have "\<exists>e2. same_config e e2 \<and> fst (class_loop env target rest e2) = None"
  proof (cases "tracker ea")
    case None
    with Cons.prems(1) ex err show ?thesis by (simp add: ds)
  next
    case (Some t)
    show ?thesis
    proof (cases "results ea")
      case None
      with Some Cons.prems(1) ex err cfg0 show ?thesis
        by (auto simp: ds split: if_splits)
    next
      case r: (Some res)
      obtain uerr t' where u: "update_stats t res = (uerr, t')" by (cases "update_stats t res")
      from Cons.prems(1) ex err Some r u have "uerr = None" by (cases uerr) (simp_all add: ds)
      with Cons.prems(1) ex err Some r u cfg[of "Some t'"] show ?thesis
        by (auto simp: ds)
    qed
  qed
  then obtain e2 where "same_config e e2" "fst (class_loop env target rest e2) = None" by blast
  from Cons.IH[OF this(2) this(1)] here show ?case by (simp add: ds)
qed

lemma length_concat_replicate: "length (concat (replicate n xs)) = n * length xs"
  by (induction n) simp_all

lemma execute_all_runs:
  assumes "fst (execute_all env e dataset classes target) = None"
  shows "update_all (PerformanceTracker classes (model_labels e))
           (concat (replicate (nat (nruns e)) (map (trial_results env e target) dataset))) =
         (None, the (tracker (snd (execute_all env e dataset classes target))))"
proof -
  let ?T0 = "PerformanceTracker classes (model_labels e)"
  let ?e0 = "e\<lparr>tracker := Some ?T0\<rparr>"
  have c: "same_config e ?e0" by (simp add: same_config_def)
  have t: "tracker ?e0 = Some ?T0" by simp
  show ?thesis
  proof (cases "nat (nruns e)")
    case 0
    then show ?thesis by (simp add: execute_all_def)
  next
    case (Suc n)
    obtain err e2 where cl: "class_loop env target dataset ?e0 = (err, e2)"
      by (cases "class_loop env target dataset ?e0")
    from assms Suc cl have "err = None" by (cases err) (simp_all add: execute_all_def)
    with cl have "fst (class_loop env target dataset ?e0) = None" by simp
    from class_loop_returned[OF this c]
    have ok: "\<forall>ds \<in> set dataset. fst (execute env e (fst ds) (snd ds) target) = None" .
    from run_loop_updates[OF ok c t, of "nat (nruns e)"] assms show ?thesis
      by (simp add: execute_all_def prod_eq_iff)
  qed
qed

text \<open>
  Claim C3. On a tracker constructed with distinct test classes, after any number of
  \<^verbatim>\<open>update_stats\<close> calls that returned, the counters of each test class, summed over
  the registered model families, give the number of calls: every recorded trial adds
  one win to every class. In particular, when \<^verbatim>\<open>execute_all\<close> returns, this sum is
  the number of runs times the number of elements of the data set, which is the number
  of \<^verbatim>\<open>update_stats\<close> calls that it made.
\<close>

theorem wins_sum_to_trials:
  assumes "distinct cs" and "c \<in> set cs"
  shows "(update_all (PerformanceTracker cs ms) rs = (None, t) \<longrightarrow>
           (\<Sum>f \<in> set ms. case win_count t c f of None \<Rightarrow> 0 | Some n \<Rightarrow> n) = int (length rs))
       \<and> (execute_all env e dataset cs target = (None, e') \<and> tracker e' = Some t' \<longrightarrow>
           (\<Sum>f \<in> set (model_labels e). case win_count t' c f of None \<Rightarrow> 0 | Some n \<Rightarrow> n) =
             int (nat (nruns e) * length dataset))"
proof -
  have main: "(\<Sum>f \<in> set ms. case win_count t c f of None \<Rightarrow> 0 | Some n \<Rightarrow> n) = int (length rs)"
    if u: "update_all (PerformanceTracker cs ms) rs = (None, t)" for ms rs t
  proof -
    let ?t0 = "PerformanceTracker cs ms"
    have tc: "test_classes ?t0 = cs" "models ?t0 = ms" by (simp_all add: PerformanceTracker_def)
    have "(case win_count ?t0 c f of None \<Rightarrow> 0 | Some n \<Rightarrow> n) = (0 :: int)" for f
      by (simp add: win_count_init)
    then have z: "total_wins ?t0 c = 0"
      by (simp add: total_wins_def)
    from update_all_total[OF tracker_inv_init tracker_dom_init _ _ u, of c] assms tc
    have a: "total_wins t c = total_wins ?t0 c + int (length rs)" and b: "models t = ms"
      by simp_all
    from a z have "total_wins t c = int (length rs)" by simp
    then show ?thesis unfolding total_wins_def b .
  qed
  have run: "(\<Sum>f \<in> set (model_labels e). case win_count t' c f of None \<Rightarrow> 0 | Some n \<Rightarrow> n) =
             int (nat (nruns e) * length dataset)"
    if x: "execute_all env e dataset cs target = (None, e') \<and> tracker e' = Some t'"
  proof -
    from x have "fst (execute_all env e dataset cs target) = None" by simp
    from execute_all_runs[OF this] x
    have "update_all (PerformanceTracker cs (model_labels e))
           (concat (replicate (nat (nruns e)) (map (trial_results env e target) dataset))) =
         (None, t')" by simp
    from main[OF this] show ?thesis by (simp add: length_concat_replicate)
  qed
  from main run show ?thesis by blast
qed

theorem wins_sum_to_trials_witness:
  "distinct [''c1'', ''c2''] \<and> ''c1'' \<in> set [''c1'', ''c2'']
   \<and> update_all (PerformanceTracker [''c1'', ''c2''] [''A'', ''B'']) [demo_results, demo_results] =
       (None, demo_after2)
   \<and> (\<Sum>f \<in> set [''A'', ''B'']. case win_count demo_after2 ''c1'' f of None \<Rightarrow> 0 | Some n \<Rightarrow> n) =
       int (length [demo_results, demo_results])
   \<and> fst (execute_all demo_env demo_experiment demo_dataset [''c1'', ''c2''] ''score'') = None
   \<and> tracker (snd (execute_all demo_env demo_experiment demo_dataset [''c1'', ''c2''] ''score'')) =
       Some demo_final
   \<and> (\<Sum>f \<in> set (model_labels demo_experiment).
         case win_count demo_final ''c1'' f of None \<Rightarrow> 0 | Some n \<Rightarrow> n) =
       int (nat (nruns demo_experiment) * length demo_dataset)"
proof -
  have d: "distinct [''c1'', ''c2'']" "''c1'' \<in> set [''c1'', ''c2'']" by simp_all
  have u: "update_all (PerformanceTracker [''c1'', ''c2''] [''A'', ''B''])
             [demo_results, demo_results] = (None, demo_after2)"
    using demo_update by (simp add: demo_tracker_def)
  have ok: "\<forall>ds \<in> set demo_dataset.
      fst (execute demo_env demo_experiment (fst ds) (snd ds) ''score'') = None"
    by (simp add: demo_dataset_def demo_execute)
  have rs: "map (trial_results demo_env demo_experiment ''score'') demo_dataset = [demo_results_a]"
    by (simp add: demo_dataset_def trial_results_def demo_execute)
  let ?e0 = "demo_experiment\<lparr>tracker :=
      Some (PerformanceTracker [''c1'', ''c2''] (model_labels demo_experiment))\<rparr>"
  have c: "same_config demo_experiment ?e0" by (simp add: same_config_def)
  have t: "tracker ?e0 = Some (PerformanceTracker [''c1'', ''c2''] (model_labels demo_experiment))"
    by simp
  from run_loop_updates[OF ok c t, of "nat (nruns demo_experiment)", unfolded rs demo_final_updates]
  have x: "fst (execute_all demo_env demo_experiment demo_dataset [''c1'', ''c2''] ''score'') = None"
    "tracker (snd (execute_all demo_env demo_experiment demo_dataset [''c1'', ''c2''] ''score'')) =
       Some demo_final"
    by (simp_all add: execute_all_def)
  then have y: "execute_all demo_env demo_experiment demo_dataset [''c1'', ''c2''] ''score'' =
      (None, snd (execute_all demo_env demo_experiment demo_dataset [''c1'', ''c2''] ''score''))
    \<and> tracker (snd (execute_all demo_env demo_experiment demo_dataset [''c1'', ''c2''] ''score'')) =
       Some demo_final"
    by (simp add: prod_eq_iff)
  from wins_sum_to_trials[OF d, THEN conjunct1, THEN mp, OF u]
    wins_sum_to_trials[OF d, THEN conjunct2, THEN mp, OF y]
    d u x
  show ?thesis by (intro conjI)
qed

end
